theory Spec2Isabelle
  imports Main
begin

section \<open>FlowKit: gates, gating strategies and the session\<close>

subsection \<open>Errors\<close>

text \<open>
  Every exception the modelled code can raise is a constructor of \<open>error\<close>; a function that
  can raise returns \<open>error + 'r\<close>, with \<open>Inl\<close> for the exception.
\<close>

datatype error =
    DimCountMismatch nat nat  \<comment> \<open>ValueError "Number of FCS dimensions (%d) does not match label count (%d)"\<close>
  | NoMinOrMax string         \<comment> \<open>ValueError "Gate '%s' does not include a min or max value"\<close>
  | NotInList string          \<comment> \<open>ValueError of \<open>list.index\<close>: the label is not in the list\<close>
  | DimensionNameNotFound     \<comment> \<open>ValueError "Dimension name not found (line %d)"\<close>
  | FloatError string         \<comment> \<open>ValueError of \<open>float(s)\<close>\<close>
  | DuplicateGateId string    \<comment> \<open>ValueError "Gate '%s' already exists. Duplicate gate IDs are not allowed."\<close>
  | NoDividerReference        \<comment> \<open>ValueError "Quadrant must define a divider reference (line %d)"\<close>
  | IndexError
  | KeyError string
  | AttributeError            \<comment> \<open>'str' object has no attribute 'apply'\<close>
  | NoObjectsToConcatenate    \<comment> \<open>ValueError of \<open>pd.concat\<close> on an empty list\<close>
  | DuplicateGatePath         \<comment> \<open>the duplicate-path configuration error of the specification\<close>
  | PoolError                 \<comment> \<open>ValueError "Number of processes must be at least 1"\<close>
  | GatingError string        \<comment> \<open>whatever a gating strategy's \<open>gate_sample\<close> raises\<close>

subsection \<open>Event matrices\<close>

text \<open>
  A two-dimensional numpy array: \<open>shape0\<close> rows (events), \<open>shape1\<close> columns (channels) and
  the entry at a row and a column. The entries are of any type with the comparisons \<open>\<le>\<close>
  and \<open><\<close>; nothing is assumed of the comparisons, so what is proved of the rectangle
  gate holds of floating-point comparisons too.
\<close>

record 'a events =
  shape0 :: nat
  shape1 :: nat
  at :: "nat \<Rightarrow> nat \<Rightarrow> 'a"

text \<open>\<open>events[:, j]\<close>; numpy raises IndexError when \<open>j\<close> is not a column.\<close>

definition column :: "'a events \<Rightarrow> nat \<Rightarrow> error + 'a list" where
  "column ev j =
     (if j < shape1 ev then Inr (map (\<lambda>i. at ev i j) [0..<shape0 ev]) else Inl IndexError)"

text \<open>\<open>pnn_labels.index(label)\<close>: the first position of the label, ValueError when absent.\<close>

fun index_of :: "string list \<Rightarrow> string \<Rightarrow> nat option" where
  "index_of [] l = None"
| "index_of (x # xs) l =
     (if x = l then Some 0 else (case index_of xs l of None \<Rightarrow> None | Some n \<Rightarrow> Some (Suc n)))"

subsection \<open>Dimensions and gates (models/gate.py)\<close>

text \<open>
  \<open>Dimension\<close>: the fields its constructor sets. \<open>dim_id\<close> is \<open>self.id\<close>, which the
  constructor binds to the list of max attributes (its last assignment).
\<close>

record 'a dimension =
  compensation_ref :: string
  dim_min :: "'a option"
  dim_max :: "'a option"
  dim_id :: "string list"
  label :: string

record 'a gate =
  gate_id :: string
  parent :: "string option"
  dimensions :: "'a dimension list"

text \<open>
  \<open>RectangleGate.apply\<close>, first loop: for each dimension in turn, raise when it has neither
  bound, else look its label up and append to \<open>dim_idx\<close>, \<open>dim_min\<close> and \<open>dim_max\<close>. The
  three lists grow together, so they are kept as one list of triples.
\<close>

fun collect_dims ::
  "string \<Rightarrow> string list \<Rightarrow> 'a dimension list \<Rightarrow> error + (nat \<times> 'a option \<times> 'a option) list" where
  "collect_dims gid labels [] = Inr []"
| "collect_dims gid labels (d # ds) =
     (if dim_min d = None \<and> dim_max d = None then Inl (NoMinOrMax gid)
      else (case index_of labels (label d) of
              None \<Rightarrow> Inl (NotInList (label d))
            | Some j \<Rightarrow>
                (case collect_dims gid labels ds of
                   Inl e \<Rightarrow> Inl e
                 | Inr rest \<Rightarrow> Inr ((j, dim_min d, dim_max d) # rest))))"

text \<open>\<open>np.bitwise_and\<close> of two boolean arrays of one length.\<close>

definition bitwise_and :: "bool list \<Rightarrow> bool list \<Rightarrow> bool list" where
  "bitwise_and xs ys = map2 (\<and>) xs ys"

text \<open>
  \<open>results = np.bitwise_and(results, events[:, d_idx] >= m)\<close> and the same with \<open>< m\<close>.
\<close>

definition and_ge :: "('a::ord) events \<Rightarrow> nat \<Rightarrow> 'a \<Rightarrow> bool list \<Rightarrow> error + bool list" where
  "and_ge ev j m results =
     (case column ev j of
        Inl e \<Rightarrow> Inl e
      | Inr col \<Rightarrow> Inr (bitwise_and results (map (\<lambda>v. v \<ge> m) col)))"

definition and_lt :: "('a::ord) events \<Rightarrow> nat \<Rightarrow> 'a \<Rightarrow> bool list \<Rightarrow> error + bool list" where
  "and_lt ev j m results =
     (case column ev j of
        Inl e \<Rightarrow> Inl e
      | Inr col \<Rightarrow> Inr (bitwise_and results (map (\<lambda>v. v < m) col)))"

text \<open>\<open>RectangleGate.apply\<close>, second loop, over the collected dimensions.\<close>

fun apply_bounds ::
  "('a::ord) events \<Rightarrow> (nat \<times> 'a option \<times> 'a option) list \<Rightarrow> bool list \<Rightarrow> error + bool list" where
  "apply_bounds ev [] results = Inr results"
| "apply_bounds ev ((j, mn, mx) # rest) results =
     (case (case mn of None \<Rightarrow> Inr results | Some m \<Rightarrow> and_ge ev j m results) of
        Inl e \<Rightarrow> Inl e
      | Inr r1 \<Rightarrow>
          (case (case mx of None \<Rightarrow> Inr r1 | Some m \<Rightarrow> and_lt ev j m r1) of
             Inl e \<Rightarrow> Inl e
           | Inr r2 \<Rightarrow> apply_bounds ev rest r2))"

definition RectangleGate_apply ::
  "('a::ord) gate \<Rightarrow> 'a events \<Rightarrow> string list \<Rightarrow> error + bool list" where
  "RectangleGate_apply g ev pnn_labels =
     (if shape1 ev \<noteq> length pnn_labels
      then Inl (DimCountMismatch (shape1 ev) (length pnn_labels))
      else (case collect_dims (gate_id g) pnn_labels (dimensions g) of
              Inl e \<Rightarrow> Inl e
            | Inr dims \<Rightarrow> apply_bounds ev dims (replicate (shape0 ev) True)))"

text \<open>
  What one dimension asks of event \<open>i\<close>: its value in the dimension's channel is at least
  the minimum when there is one, and below the maximum when there is one.
\<close>

definition dim_holds :: "('a::ord) events \<Rightarrow> string list \<Rightarrow> nat \<Rightarrow> 'a dimension \<Rightarrow> bool" where
  "dim_holds ev pnn_labels i d =
     (case index_of pnn_labels (label d) of
        None \<Rightarrow> False
      | Some j \<Rightarrow>
          (case dim_min d of None \<Rightarrow> True | Some m \<Rightarrow> at ev i j \<ge> m) \<and>
          (case dim_max d of None \<Rightarrow> True | Some m \<Rightarrow> at ev i j < m))"

definition triple_holds :: "('a::ord) events \<Rightarrow> nat \<Rightarrow> nat \<times> 'a option \<times> 'a option \<Rightarrow> bool" where
  "triple_holds ev i t =
     (case t of (j, mn, mx) \<Rightarrow>
        (case mn of None \<Rightarrow> True | Some m \<Rightarrow> at ev i j \<ge> m) \<and>
        (case mx of None \<Rightarrow> True | Some m \<Rightarrow> at ev i j < m))"

subsection \<open>Building gates and strategies (models/gate.py)\<close>

text \<open>
  The constructors read an lxml element. Of an element the model keeps what the
  constructors ask of it: the list each \<open>xpath\<close> attribute query returns (empty when the
  attribute is absent), the \<open>fcs-dimension\<close> child that \<open>find\<close> returns (\<open>None\<close> when there
  is none), here the list of its \<open>name\<close> attributes, and the \<open>dimension\<close> children that
  \<open>findall\<close> returns.
\<close>

record dim_element =
  el_compensation_ref :: "string list"
  el_min :: "string list"
  el_max :: "string list"
  el_fcs_dimension :: "string list option"

record gate_element =
  el_id :: "string list"
  el_parent :: "string list"
  el_dimensions :: "dim_element list"

text \<open>
  \<open>self.min = float(min_attribs[0])\<close> when there is a min attribute, else \<open>self.min\<close> stays
  \<open>None\<close>; \<open>pyfloat\<close> is Python's \<open>float\<close> on strings, \<open>None\<close> where it raises.
\<close>

definition read_bound :: "(string \<Rightarrow> 'a option) \<Rightarrow> string list \<Rightarrow> error + 'a option" where
  "read_bound pyfloat attribs =
     (case attribs of
        [] \<Rightarrow> Inr None
      | s # _ \<Rightarrow> (case pyfloat s of None \<Rightarrow> Inl (FloatError s) | Some v \<Rightarrow> Inr (Some v)))"

text \<open>\<open>Dimension.__init__\<close>. No statement of it looks at whether a bound is present.\<close>

definition Dimension_init :: "(string \<Rightarrow> 'a option) \<Rightarrow> dim_element \<Rightarrow> error + 'a dimension" where
  "Dimension_init pyfloat el =
     (case el_compensation_ref el of
        [] \<Rightarrow> Inl IndexError
      | c # _ \<Rightarrow>
          (case read_bound pyfloat (el_min el) of
             Inl e \<Rightarrow> Inl e
           | Inr mn \<Rightarrow>
               (case read_bound pyfloat (el_max el) of
                  Inl e \<Rightarrow> Inl e
                | Inr mx \<Rightarrow>
                    (case el_fcs_dimension el of
                       None \<Rightarrow> Inl AttributeError
                     | Some [] \<Rightarrow> Inl DimensionNameNotFound
                     | Some (l # _) \<Rightarrow>
                         Inr \<lparr>compensation_ref = c, dim_min = mn, dim_max = mx,
                              dim_id = el_max el, label = l\<rparr>))))"

text \<open>The loop of \<open>Gate.__init__\<close> over the dimension elements.\<close>

fun init_dimensions ::
  "(string \<Rightarrow> 'a option) \<Rightarrow> dim_element list \<Rightarrow> error + 'a dimension list" where
  "init_dimensions pyfloat [] = Inr []"
| "init_dimensions pyfloat (el # els) =
     (case Dimension_init pyfloat el of
        Inl e \<Rightarrow> Inl e
      | Inr d \<Rightarrow>
          (case init_dimensions pyfloat els of
             Inl e \<Rightarrow> Inl e
           | Inr ds \<Rightarrow> Inr (d # ds)))"

text \<open>
  \<open>RectangleGate.__init__\<close>, which only calls \<open>Gate.__init__\<close>: the id (IndexError when
  the attribute is absent), the optional parent, the dimensions.
\<close>

definition RectangleGate_init :: "(string \<Rightarrow> 'a option) \<Rightarrow> gate_element \<Rightarrow> error + 'a gate" where
  "RectangleGate_init pyfloat el =
     (case el_id el of
        [] \<Rightarrow> Inl IndexError
      | i # _ \<Rightarrow>
          (case init_dimensions pyfloat (el_dimensions el) of
             Inl e \<Rightarrow> Inl e
           | Inr ds \<Rightarrow>
               Inr \<lparr>gate_id = i,
                    parent = (case el_parent el of [] \<Rightarrow> None | p # _ \<Rightarrow> Some p),
                    dimensions = ds\<rparr>))"

text \<open>
  A Python dict, in insertion order: \<open>d[k] = v\<close> replaces the value of a key that is
  there and appends a new key.
\<close>

fun dict_set :: "('k \<times> 'v) list \<Rightarrow> 'k \<Rightarrow> 'v \<Rightarrow> ('k \<times> 'v) list" where
  "dict_set [] k v = [(k, v)]"
| "dict_set ((k', v') # kvs) k v =
     (if k' = k then (k, v) # kvs else (k', v') # dict_set kvs k v)"

definition dict_keys :: "('k \<times> 'v) list \<Rightarrow> 'k list" where
  "dict_keys d = map fst d"

text \<open>
  \<open>GatingStrategy\<close>: \<open>self.gates\<close>, "keys will be gate ID, value is the gate object
  itself". The schema, the parser and the namespaces play no part in what follows.
\<close>

record 'a gating_strategy =
  gates :: "(string \<times> 'a gate) list"

text \<open>
  The loop of \<open>GatingStrategy.__init__\<close> over the RectangleGate elements of the document
  (\<open>GATE_TYPES\<close> has this one type): construct the gate, raise when its id is a key of
  \<open>self.gates\<close> already, else store it under its id.
\<close>

fun init_gates ::
  "(string \<Rightarrow> 'a option) \<Rightarrow> gate_element list \<Rightarrow> (string \<times> 'a gate) list \<Rightarrow>
   error + (string \<times> 'a gate) list" where
  "init_gates pyfloat [] gs = Inr gs"
| "init_gates pyfloat (el # els) gs =
     (case RectangleGate_init pyfloat el of
        Inl e \<Rightarrow> Inl e
      | Inr g \<Rightarrow>
          (if gate_id g \<in> set (dict_keys gs) then Inl (DuplicateGateId (gate_id g))
           else init_gates pyfloat els (dict_set gs (gate_id g) g)))"

definition GatingStrategy_init ::
  "(string \<Rightarrow> 'a option) \<Rightarrow> gate_element list \<Rightarrow> error + 'a gating_strategy" where
  "GatingStrategy_init pyfloat els =
     (case init_gates pyfloat els [] of
        Inl e \<Rightarrow> Inl e
      | Inr gs \<Rightarrow> Inr \<lparr>gates = gs\<rparr>)"

subsection \<open>Gating one sample (models/gate.py)\<close>

record 'a sample =
  get_raw_events :: "'a events"
  sample_pnn_labels :: "string list"

text \<open>
  What the loop variable \<open>gate\<close> of \<open>gate_sample\<close> is bound to: iterating over a dict
  yields its keys, here strings; iterating over the one-element list yields a gate.
\<close>

datatype 'a pyobj = PyStr string | PyGate "'a gate"

text \<open>\<open>gate.apply(events, labels)\<close>: a string has no attribute \<open>apply\<close>.\<close>

definition obj_apply :: "('a::ord) pyobj \<Rightarrow> 'a events \<Rightarrow> string list \<Rightarrow> error + bool list" where
  "obj_apply obj ev labels =
     (case obj of
        PyStr s \<Rightarrow> Inl AttributeError
      | PyGate g \<Rightarrow> RectangleGate_apply g ev labels)"

text \<open>
  The loop of \<open>gate_sample\<close>: \<open>results[gate_id] = gate.apply(...)\<close>, the key being the
  argument \<open>gate_id\<close> at every turn.
\<close>

fun gate_loop ::
  "('a::ord) pyobj list \<Rightarrow> 'a sample \<Rightarrow> string option \<Rightarrow> (string option \<times> bool list) list \<Rightarrow>
   error + (string option \<times> bool list) list" where
  "gate_loop [] smp gid results = Inr results"
| "gate_loop (obj # objs) smp gid results =
     (case obj_apply obj (get_raw_events smp) (sample_pnn_labels smp) of
        Inl e \<Rightarrow> Inl e
      | Inr r \<Rightarrow> gate_loop objs smp gid (dict_set results gid r))"

definition gate_sample ::
  "('a::ord) gating_strategy \<Rightarrow> 'a sample \<Rightarrow> string option \<Rightarrow>
   error + (string option \<times> bool list) list" where
  "gate_sample gs smp gid =
     (case gid of
        None \<Rightarrow> gate_loop (map PyStr (dict_keys (gates gs))) smp gid []
      | Some k \<Rightarrow>
          (case map_of (gates gs) k of
             None \<Rightarrow> Inl (KeyError k)
           | Some g \<Rightarrow> gate_loop [PyGate g] smp gid []))"

subsection \<open>Example inputs\<close>

definition ex_float :: "string \<Rightarrow> int option" where
  "ex_float s = (if s = ''0'' then Some 0 else if s = ''10'' then Some 10 else None)"

definition ex_dim_x :: dim_element where
  "ex_dim_x = \<lparr>el_compensation_ref = [''uncompensated''], el_min = [''0''], el_max = [''10''],
               el_fcs_dimension = Some [''X'']\<rparr>"

definition ex_dim_unbounded :: dim_element where
  "ex_dim_unbounded = \<lparr>el_compensation_ref = [''uncompensated''], el_min = [], el_max = [],
                       el_fcs_dimension = Some [''X'']\<rparr>"

definition ex_gate_x :: "int gate" where
  "ex_gate_x = \<lparr>gate_id = ''R'', parent = None,
     dimensions = [\<lparr>compensation_ref = ''uncompensated'', dim_min = Some 0, dim_max = Some 10,
                    dim_id = [''10''], label = ''X''\<rparr>]\<rparr>"

definition ex_gate_none :: "int gate" where
  "ex_gate_none = \<lparr>gate_id = ''All'', parent = None, dimensions = []\<rparr>"

definition ex_events :: "int events" where
  "ex_events = \<lparr>shape0 = 4, shape1 = 2,
                at = (\<lambda>i j. [[5, 5], [15, 5], [10, 5], [0, 50]] ! i ! j)\<rparr>"

definition ex_sample :: "int sample" where
  "ex_sample = \<lparr>get_raw_events = ex_events, sample_pnn_labels = [''X'', ''Y'']\<rparr>"

definition ex_gate_u :: "int gate" where
  "ex_gate_u = \<lparr>gate_id = ''U'', parent = None,
     dimensions = [\<lparr>compensation_ref = ''uncompensated'', dim_min = None, dim_max = None,
                    dim_id = [], label = ''X''\<rparr>]\<rparr>"

definition ex_gate_g :: "string option \<Rightarrow> int gate" where
  "ex_gate_g p = \<lparr>gate_id = ''G'', parent = p,
     dimensions = [\<lparr>compensation_ref = ''uncompensated'', dim_min = Some 0, dim_max = Some 10,
                    dim_id = [''10''], label = ''X''\<rparr>]\<rparr>"

definition ex_el_r :: gate_element where
  "ex_el_r = \<lparr>el_id = [''R''], el_parent = [], el_dimensions = [ex_dim_x]\<rparr>"

definition ex_el_u :: gate_element where
  "ex_el_u = \<lparr>el_id = [''U''], el_parent = [], el_dimensions = [ex_dim_unbounded]\<rparr>"

definition ex_el_g_root :: gate_element where
  "ex_el_g_root = \<lparr>el_id = [''G''], el_parent = [], el_dimensions = [ex_dim_x]\<rparr>"

definition ex_el_g_child :: gate_element where
  "ex_el_g_child = \<lparr>el_id = [''G''], el_parent = [''R''], el_dimensions = [ex_dim_x]\<rparr>"

definition ex_strategy :: "int gating_strategy" where
  "ex_strategy = \<lparr>gates = [(''R'', ex_gate_x)]\<rparr>"

subsection \<open>Quadrant positions (models/gates/gml_gates.py)\<close>

text \<open>
  A divider as \<open>GMLQuadrantGate.__init__\<close> reads it: its id, the dimension it refers to
  and its split points. The split points and the location are of a linearly ordered
  type.
\<close>

record 'a divider =
  div_id :: string
  dimension_ref :: string
  div_values :: "'a list"

record 'a position =
  pos_divider :: string
  pos_dimension :: string
  pos_location :: 'a
  pos_min :: "'a option"
  pos_max :: "'a option"

text \<open>
  The loop \<open>for v in sorted(div.values)\<close>: the first value above the location becomes
  \<open>q_max\<close> and ends the loop; a value not above it becomes \<open>q_min\<close>.
\<close>

fun scan_values :: "('a::linorder) list \<Rightarrow> 'a \<Rightarrow> 'a option \<times> 'a option \<Rightarrow> 'a option \<times> 'a option" where
  "scan_values [] loc (q_min, q_max) = (q_min, q_max)"
| "scan_values (v # vs) loc (q_min, q_max) =
     (if v > loc then (q_min, Some v)
      else if v \<le> loc then scan_values vs loc (Some v, q_max)
      else scan_values vs loc (q_min, q_max))"

text \<open>
  The loop \<open>for div in dividers\<close>: a divider with another id is skipped; one with the
  referenced id sets \<open>dim_label\<close> and is scanned.
\<close>

fun scan_dividers ::
  "('a::linorder) divider list \<Rightarrow> string \<Rightarrow> 'a \<Rightarrow> string option \<times> 'a option \<times> 'a option \<Rightarrow>
   string option \<times> 'a option \<times> 'a option" where
  "scan_dividers [] divider loc st = st"
| "scan_dividers (d # ds) divider loc (dim_label, q_min, q_max) =
     (if div_id d \<noteq> divider then scan_dividers ds divider loc (dim_label, q_min, q_max)
      else (case scan_values (sort (div_values d)) loc (q_min, q_max) of
              (q_min', q_max') \<Rightarrow>
                scan_dividers ds divider loc (Some (dimension_ref d), q_min', q_max')))"

text \<open>
  One \<open>position\<close> element of a quadrant: the dict appended to \<open>quadrants[quad_id]\<close>, or
  the ValueError when no divider has the referenced id.
\<close>

definition quadrant_position ::
  "('a::linorder) divider list \<Rightarrow> string \<Rightarrow> 'a \<Rightarrow> error + 'a position" where
  "quadrant_position dividers divider loc =
     (case scan_dividers dividers divider loc (None, None, None) of
        (None, q_min, q_max) \<Rightarrow> Inl NoDividerReference
      | (Some dim_label, q_min, q_max) \<Rightarrow>
          Inr \<lparr>pos_divider = divider, pos_dimension = dim_label, pos_location = loc,
               pos_min = q_min, pos_max = q_max\<rparr>)"

definition ex_dividers :: "int divider list" where
  "ex_dividers = [\<lparr>div_id = ''A'', dimension_ref = ''X'', div_values = [50, 10, 30]\<rparr>,
                  \<lparr>div_id = ''B'', dimension_ref = ''Y'', div_values = [20]\<rparr>]"

definition ex_divider_a :: "int divider" where
  "ex_divider_a = \<lparr>div_id = ''A'', dimension_ref = ''X'', div_values = [50, 10, 30]\<rparr>"

subsection \<open>Gating many samples (_models/session.py)\<close>

text \<open>
  The class of gating results and the method \<open>GatingStrategy.gate_sample(sample, verbose)\<close>
  that \<open>session.py\<close> calls are defined in \<open>_models/gating_strategy.py\<close>, a module that is
  not embedded here. Of a result the session reads
  \<open>sample_id\<close> and \<open>report\<close>; the method is the parameter \<open>gs\<close> of the functions below, a
  function of the strategy, the sample and \<open>verbose\<close> that returns a result or raises.
\<close>

record 'row gating_results =
  sample_id :: string
  report :: "'row list"

text \<open>
  What \<open>_gate_samples\<close> takes from \<open>gate_utils\<close> and \<open>multiprocessing\<close>: the flag
  \<open>multi_proc\<close>, \<open>mp.cpu_count()\<close>, the creation of \<open>Pool(processes=n)\<close> (\<open>pool_open\<close>, the
  error it raises if any) and \<open>pool.map(f, data)\<close> on the pool of \<open>n\<close> processes.
\<close>

record ('s, 'x, 'row) mp_env =
  multi_proc :: bool
  cpu_count :: int
  pool_open :: "int \<Rightarrow> error option"
  pool_map :: "int \<Rightarrow> ('s \<times> 'x \<times> bool \<Rightarrow> error + 'row gating_results) \<Rightarrow>
               ('s \<times> 'x \<times> bool) list \<Rightarrow> error + 'row gating_results list"

text \<open>\<open>_gate_sample(data)\<close>.\<close>

definition mp_gate_sample ::
  "('s \<Rightarrow> 'x \<Rightarrow> bool \<Rightarrow> error + 'row gating_results) \<Rightarrow> 's \<times> 'x \<times> bool \<Rightarrow>
   error + 'row gating_results" where
  "mp_gate_sample gs data = (case data of (gating_strategy, smp, verbose) \<Rightarrow> gs gating_strategy smp verbose)"

text \<open>The choice of \<open>proc_count\<close> (lines 45 to 48).\<close>

definition proc_count :: "int \<Rightarrow> int \<Rightarrow> int" where
  "proc_count sample_count cpus = (if sample_count < cpus then sample_count else cpus - 1)"

text \<open>
  \<open>[(gating_strategies[i], sample, verbose) for i, sample in enumerate(samples)]\<close>
\<close>

fun build_data :: "'s list \<Rightarrow> 'x list \<Rightarrow> bool \<Rightarrow> nat \<Rightarrow> error + ('s \<times> 'x \<times> bool) list" where
  "build_data gating_strategies [] verbose i = Inr []"
| "build_data gating_strategies (smp # smps) verbose i =
     (if i < length gating_strategies
      then (case build_data gating_strategies smps verbose (Suc i) of
              Inl e \<Rightarrow> Inl e
            | Inr rest \<Rightarrow> Inr ((gating_strategies ! i, smp, verbose) # rest))
      else Inl IndexError)"

text \<open>The sequential branch: the loop that appends each result to \<open>all_results\<close>.\<close>

fun gate_samples_seq ::
  "('s \<Rightarrow> 'x \<Rightarrow> bool \<Rightarrow> error + 'row gating_results) \<Rightarrow> 's list \<Rightarrow> 'x list \<Rightarrow> bool \<Rightarrow> nat \<Rightarrow>
   'row gating_results list \<Rightarrow> error + 'row gating_results list" where
  "gate_samples_seq gs gating_strategies [] verbose i all_results = Inr all_results"
| "gate_samples_seq gs gating_strategies (smp # smps) verbose i all_results =
     (if i < length gating_strategies
      then (case gs (gating_strategies ! i) smp verbose of
              Inl e \<Rightarrow> Inl e
            | Inr results \<Rightarrow>
                gate_samples_seq gs gating_strategies smps verbose (Suc i) (all_results @ [results]))
      else Inl IndexError)"

text \<open>\<open>_gate_samples(gating_strategies, samples, verbose, use_mp)\<close>.\<close>

definition mp_gate_samples ::
  "('s, 'x, 'row) mp_env \<Rightarrow> ('s \<Rightarrow> 'x \<Rightarrow> bool \<Rightarrow> error + 'row gating_results) \<Rightarrow>
   's list \<Rightarrow> 'x list \<Rightarrow> bool \<Rightarrow> bool \<Rightarrow> error + 'row gating_results list" where
  "mp_gate_samples env gs gating_strategies samples verbose use_mp =
     (let sample_count = int (length samples) in
      if multi_proc env \<and> sample_count > 1 \<and> use_mp
      then (let pc = proc_count sample_count (cpu_count env) in
            case pool_open env pc of
              Some e \<Rightarrow> Inl e
            | None \<Rightarrow>
                (case build_data gating_strategies samples verbose 0 of
                   Inl e \<Rightarrow> Inl e
                 | Inr data \<Rightarrow> pool_map env pc (mp_gate_sample gs) data))
      else gate_samples_seq gs gating_strategies samples verbose 0 [])"

text \<open>
  \<open>Session.analyze_samples\<close> from line 564 on. \<open>samples\<close> is the list the lines before
  have computed (an entry is \<open>None\<close> for a sample that is referenced and not loaded),
  \<open>members\<close> is \<open>self._sample_group_lut[group_name]['samples']\<close> and \<open>results_lut\<close> is
  \<open>self._results_lut\<close>. The function returns the exception raised, if any, and
  \<open>self._results_lut\<close> as the call leaves it.
\<close>

record 'row group_results =
  group_report :: "'row list"
  group_samples :: "(string \<times> 'row gating_results) list"

fun collect_runs ::
  "('x \<Rightarrow> string) \<Rightarrow> (string \<times> 's) list \<Rightarrow> 'x option list \<Rightarrow> error + ('s list \<times> 'x list)" where
  "collect_runs original_filename members [] = Inr ([], [])"
| "collect_runs original_filename members (None # ss) = collect_runs original_filename members ss"
| "collect_runs original_filename members (Some s # ss) =
     (case map_of members (original_filename s) of
        None \<Rightarrow> Inl (KeyError (original_filename s))
      | Some strategy \<Rightarrow>
          (case collect_runs original_filename members ss of
             Inl e \<Rightarrow> Inl e
           | Inr (gating_strategies, samples_to_run) \<Rightarrow>
               Inr (strategy # gating_strategies, s # samples_to_run)))"

fun store_results ::
  "(string \<times> 'row gating_results) list \<Rightarrow> 'row gating_results list \<Rightarrow>
   (string \<times> 'row gating_results) list" where
  "store_results d [] = d"
| "store_results d (r # rs) = store_results (dict_set d (sample_id r) r) rs"

definition analyze_samples ::
  "('s, 'x, 'row) mp_env \<Rightarrow> ('s \<Rightarrow> 'x \<Rightarrow> bool \<Rightarrow> error + 'row gating_results) \<Rightarrow>
   ('x \<Rightarrow> string) \<Rightarrow> (string \<times> 's) list \<Rightarrow> string \<Rightarrow> 'x option list \<Rightarrow> bool \<Rightarrow> bool \<Rightarrow>
   (string \<times> 'row group_results) list \<Rightarrow> error option \<times> (string \<times> 'row group_results) list" where
  "analyze_samples env gs original_filename members group_name samples verbose use_mp results_lut =
     (case collect_runs original_filename members samples of
        Inl e \<Rightarrow> (Some e, results_lut)
      | Inr (gating_strategies, samples_to_run) \<Rightarrow>
          (case mp_gate_samples env gs gating_strategies samples_to_run verbose use_mp of
             Inl e \<Rightarrow> (Some e, results_lut)
           | Inr results \<Rightarrow>
               (if results = [] then (Some NoObjectsToConcatenate, results_lut)
                else (None,
                      dict_set results_lut group_name
                        \<lparr>group_report = concat (map report results),
                         group_samples = store_results [] results\<rparr>))))"

text \<open>An example environment, whose pool maps in order and raises the first error.\<close>

fun ex_pool_map ::
  "int \<Rightarrow> ('s \<times> 'x \<times> bool \<Rightarrow> error + 'r) \<Rightarrow> ('s \<times> 'x \<times> bool) list \<Rightarrow> error + 'r list" where
  "ex_pool_map n f [] = Inr []"
| "ex_pool_map n f (d # ds) =
     (case f d of
        Inl e \<Rightarrow> Inl e
      | Inr r \<Rightarrow> (case ex_pool_map n f ds of Inl e \<Rightarrow> Inl e | Inr rs \<Rightarrow> Inr (r # rs)))"

definition ex_env :: "(string, string, nat) mp_env" where
  "ex_env = \<lparr>multi_proc = True, cpu_count = 4,
             pool_open = (\<lambda>n. if n < 1 then Some PoolError else None),
             pool_map = ex_pool_map\<rparr>"

definition ex_gs :: "string \<Rightarrow> string \<Rightarrow> bool \<Rightarrow> error + nat gating_results" where
  "ex_gs strategy smp verbose =
     (if smp = ''bad.fcs'' then Inl (GatingError smp)
      else Inr \<lparr>sample_id = smp, report = [length strategy]\<rparr>)"

subsection \<open>Sample groups and their strategies (_models/session.py)\<close>

text \<open>
  Whether two strategies share state is a matter of object identity, so the strategies
  live in a store. A strategy object is a registry of references, by key, to its
  component objects (its gates by gate path, its transforms and matrices by id); a
  component object holds a value. An address below \<open>next_addr\<close> is in use. The class
  \<open>GatingStrategy\<close> that \<open>session.py\<close> imports is defined in a module that is not embedded
  here: the registries are those the specification lists for it.
\<close>

type_synonym addr = nat

record ('k, 'c) heap =
  strategies :: "addr \<Rightarrow> ('k \<times> addr) list"
  components :: "addr \<Rightarrow> 'c"
  next_addr :: addr

text \<open>What a strategy holds: each key with the value of the component it refers to.\<close>

definition strategy_view :: "('k, 'c) heap \<Rightarrow> addr \<Rightarrow> ('k \<times> 'c) list" where
  "strategy_view h a = map (\<lambda>(k, c). (k, components h c)) (strategies h a)"

text \<open>
  \<open>copy.deepcopy\<close> of the standard library, on a component and on a strategy: every
  object reached is copied to a new object, and an object reached twice is copied once
  (the memo).
\<close>

definition deepcopy_component :: "('k, 'c) heap \<Rightarrow> addr \<Rightarrow> addr \<times> ('k, 'c) heap" where
  "deepcopy_component h c =
     (next_addr h,
      h\<lparr>components := (components h)(next_addr h := components h c),
        next_addr := Suc (next_addr h)\<rparr>)"

fun copy_refs ::
  "('k \<times> addr) list \<Rightarrow> (addr \<times> addr) list \<Rightarrow> ('k, 'c) heap \<Rightarrow>
   ('k \<times> addr) list \<times> (addr \<times> addr) list \<times> ('k, 'c) heap" where
  "copy_refs [] memo h = ([], memo, h)"
| "copy_refs ((k, c) # refs) memo h =
     (case map_of memo c of
        Some c' \<Rightarrow>
          (case copy_refs refs memo h of
             (refs', memo', h') \<Rightarrow> ((k, c') # refs', memo', h'))
      | None \<Rightarrow>
          (case deepcopy_component h c of
             (c', h1) \<Rightarrow>
               (case copy_refs refs ((c, c') # memo) h1 of
                  (refs', memo', h') \<Rightarrow> ((k, c') # refs', memo', h'))))"

definition deepcopy_strategy :: "('k, 'c) heap \<Rightarrow> addr \<Rightarrow> addr \<times> ('k, 'c) heap" where
  "deepcopy_strategy h a =
     (case copy_refs (strategies h a) [] h of
        (refs', memo', h1) \<Rightarrow>
          (next_addr h1,
           h1\<lparr>strategies := (strategies h1)(next_addr h1 := refs'),
              next_addr := Suc (next_addr h1)\<rparr>))"

text \<open>
  A sample group, \<open>{'template': ..., 'samples': {...}}\<close>, holds references to strategy
  objects; the session holds \<open>self._sample_group_lut\<close>.
\<close>

record sample_group =
  template :: addr
  members :: "(string \<times> addr) list"

record ('k, 'c) session =
  sample_group_lut :: "(string \<times> sample_group) list"
  store :: "('k, 'c) heap"

text \<open>\<open>Session.assign_sample(sample_id, group_name)\<close>.\<close>

definition assign_sample ::
  "('k, 'c) session \<Rightarrow> string \<Rightarrow> string \<Rightarrow> error + ('k, 'c) session" where
  "assign_sample s s_id group_name =
     (case map_of (sample_group_lut s) group_name of
        None \<Rightarrow> Inl (KeyError group_name)
      | Some grp \<Rightarrow>
          (if s_id \<in> set (dict_keys (members grp)) then Inr s
           else (case deepcopy_strategy (store s) (template grp) of
                   (a', h') \<Rightarrow>
                     Inr (s\<lparr>sample_group_lut :=
                              dict_set (sample_group_lut s) group_name
                                (grp\<lparr>members := dict_set (members grp) s_id a'\<rparr>),
                            store := h'\<rparr>))))"

text \<open>
  The two ways to mutate through a strategy: assign to a component object of it, and
  change its registry.
\<close>

definition set_component :: "('k, 'c) heap \<Rightarrow> addr \<Rightarrow> 'c \<Rightarrow> ('k, 'c) heap" where
  "set_component h c v = h\<lparr>components := (components h)(c := v)\<rparr>"

definition set_registry :: "('k, 'c) heap \<Rightarrow> addr \<Rightarrow> ('k \<times> addr) list \<Rightarrow> ('k, 'c) heap" where
  "set_registry h a refs = h\<lparr>strategies := (strategies h)(a := refs)\<rparr>"

text \<open>
  A strategy object is allocated when it and the components it refers to are in use;
  a session is well formed when the strategies its groups refer to are allocated.
\<close>

definition allocated :: "('k, 'c) heap \<Rightarrow> addr \<Rightarrow> bool" where
  "allocated h a = (a < next_addr h \<and> list_all (\<lambda>(k, c). c < next_addr h) (strategies h a))"

definition session_strategies :: "('k, 'c) session \<Rightarrow> addr list" where
  "session_strategies s =
     concat (map (\<lambda>(g, grp). template grp # map snd (members grp)) (sample_group_lut s))"

definition session_wf :: "('k, 'c) session \<Rightarrow> bool" where
  "session_wf s = list_all (allocated (store s)) (session_strategies s)"

text \<open>
  Modelled from the spec: \<open>GatingStrategy.add_gate(gate, gate_path)\<close>, whose module
  (\<open>_models/gating_strategy.py\<close>) is missing. The specification has the gates of a strategy as a mapping from gate
  path to gate and a duplicate path as a configuration error; \<open>key_of\<close> is the path the
  strategy derives from the gate and the \<open>gate_path\<close> argument.
\<close>

definition strategy_add_gate ::
  "('c \<Rightarrow> 'p \<Rightarrow> 'k) \<Rightarrow> ('k, 'c) heap \<Rightarrow> addr \<Rightarrow> addr \<Rightarrow> 'p \<Rightarrow> error + ('k, 'c) heap" where
  "strategy_add_gate key_of h a c gate_path =
     (let k = key_of (components h c) gate_path in
      if k \<in> set (dict_keys (strategies h a)) then Inl DuplicateGatePath
      else Inr (set_registry h a (dict_set (strategies h a) k c)))"

text \<open>
  \<open>Session.add_gate(gate, gate_path, group_name)\<close>: a deep copy of the gate to the
  template, then one to each member strategy. The template is the first turn of the
  loop here. The function returns the exception raised, if any, and the session as the
  call leaves it.
\<close>

fun add_gate_members ::
  "('c \<Rightarrow> 'p \<Rightarrow> 'k) \<Rightarrow> ('k, 'c) heap \<Rightarrow> (string \<times> addr) list \<Rightarrow> addr \<Rightarrow> 'p \<Rightarrow>
   error option \<times> ('k, 'c) heap" where
  "add_gate_members key_of h [] gate gate_path = (None, h)"
| "add_gate_members key_of h ((s_id, s_strategy) # ms) gate gate_path =
     (case deepcopy_component h gate of
        (c, h1) \<Rightarrow>
          (case strategy_add_gate key_of h1 s_strategy c gate_path of
             Inl e \<Rightarrow> (Some e, h1)
           | Inr h2 \<Rightarrow> add_gate_members key_of h2 ms gate gate_path))"

definition add_gate ::
  "('c \<Rightarrow> 'p \<Rightarrow> 'k) \<Rightarrow> ('k, 'c) session \<Rightarrow> addr \<Rightarrow> 'p \<Rightarrow> string \<Rightarrow>
   error option \<times> ('k, 'c) session" where
  "add_gate key_of s gate gate_path group_name =
     (case map_of (sample_group_lut s) group_name of
        None \<Rightarrow> (Some (KeyError group_name), s)
      | Some grp \<Rightarrow>
          (case add_gate_members key_of (store s) ((group_name, template grp) # members grp)
                  gate gate_path of
             (r, h') \<Rightarrow> (r, s\<lparr>store := h'\<rparr>)))"

definition ex_heap :: "(string, int) heap" where
  "ex_heap = \<lparr>strategies = (\<lambda>a. if a = 0 then [(''G1'', 1)] else if a = 3 then [(''G1'', 2)] else []),
              components = (\<lambda>c. if c = 1 \<or> c = 2 then 10 else if c = 4 then 20 else 0),
              next_addr = 5\<rparr>"

definition ex_group :: sample_group where
  "ex_group = \<lparr>template = 0, members = [(''a.fcs'', 3)]\<rparr>"

definition ex_session :: "(string, int) session" where
  "ex_session = \<lparr>sample_group_lut = [(''default'', ex_group)], store = ex_heap\<rparr>"

definition ex_key_of :: "int \<Rightarrow> string \<Rightarrow> string" where
  "ex_key_of v gate_path = gate_path"

text \<open>The same environment on a machine with one CPU.\<close>

definition ex_env_single :: "(string, string, nat) mp_env" where
  "ex_env_single = ex_env\<lparr>cpu_count := 1\<rparr>"

section \<open>Properties\<close>

subsection \<open>The rectangle gate\<close>

lemma index_of_less: "index_of xs l = Some j \<Longrightarrow> j < length xs"
  by (induction xs arbitrary: j) (auto split: if_splits option.splits)

lemma index_of_member: "l \<in> set xs \<Longrightarrow> \<exists>j. index_of xs l = Some j"
  by (induction xs) auto

lemma column_length: "column ev j = Inr col \<Longrightarrow> length col = shape0 ev"
  by (auto simp: column_def split: if_splits)

lemma column_nth: "column ev j = Inr col \<Longrightarrow> i < shape0 ev \<Longrightarrow> col ! i = at ev i j"
  by (auto simp: column_def split: if_splits)

lemma and_ge_sound:
  assumes "and_ge ev j m results = Inr r" and "length results = shape0 ev"
  shows "length r = shape0 ev \<and> (\<forall>i<shape0 ev. r ! i = (results ! i \<and> at ev i j \<ge> m))"
proof -
  from assms(1) obtain col where c: "column ev j = Inr col"
    and r: "r = bitwise_and results (map (\<lambda>v. v \<ge> m) col)"
    by (auto simp: and_ge_def split: sum.splits)
  have l: "length col = shape0 ev" using c by (rule column_length)
  show ?thesis using assms(2) l r column_nth [OF c] by (simp add: bitwise_and_def)
qed

lemma and_lt_sound:
  assumes "and_lt ev j m results = Inr r" and "length results = shape0 ev"
  shows "length r = shape0 ev \<and> (\<forall>i<shape0 ev. r ! i = (results ! i \<and> at ev i j < m))"
proof -
  from assms(1) obtain col where c: "column ev j = Inr col"
    and r: "r = bitwise_and results (map (\<lambda>v. v < m) col)"
    by (auto simp: and_lt_def split: sum.splits)
  have l: "length col = shape0 ev" using c by (rule column_length)
  show ?thesis using assms(2) l r column_nth [OF c] by (simp add: bitwise_and_def)
qed

lemma apply_bounds_sound:
  "apply_bounds ev ts results = Inr msk \<Longrightarrow> length results = shape0 ev \<Longrightarrow>
   length msk = shape0 ev \<and>
   (\<forall>i<shape0 ev. msk ! i = (results ! i \<and> (\<forall>t\<in>set ts. triple_holds ev i t)))"
proof (induction ts arbitrary: results)
  case Nil
  then show ?case by simp
next
  case (Cons t ts)
  obtain j mn mx where t: "t = (j, mn, mx)" by (cases t)
  from Cons.prems(1) obtain r1 r2 where
    r1: "(case mn of None \<Rightarrow> Inr results | Some m \<Rightarrow> and_ge ev j m results) = Inr r1" and
    r2: "(case mx of None \<Rightarrow> Inr r1 | Some m \<Rightarrow> and_lt ev j m r1) = Inr r2" and
    rest: "apply_bounds ev ts r2 = Inr msk"
    by (auto simp: t split: sum.splits)
  have p1: "length r1 = shape0 ev \<and>
      (\<forall>i<shape0 ev. r1 ! i = (results ! i \<and> (case mn of None \<Rightarrow> True | Some m \<Rightarrow> at ev i j \<ge> m)))"
    using r1 Cons.prems(2) and_ge_sound [of ev j _ results r1] by (cases mn) auto
  have p2: "length r2 = shape0 ev \<and>
      (\<forall>i<shape0 ev. r2 ! i = (r1 ! i \<and> (case mx of None \<Rightarrow> True | Some m \<Rightarrow> at ev i j < m)))"
    using r2 p1 and_lt_sound [of ev j _ r1 r2] by (cases mx) auto
  have ih: "length msk = shape0 ev \<and>
      (\<forall>i<shape0 ev. msk ! i = (r2 ! i \<and> (\<forall>t\<in>set ts. triple_holds ev i t)))"
    using Cons.IH [OF rest] p2 by simp
  show ?case using ih p1 p2 by (auto simp: t triple_holds_def)
qed

lemma collect_dims_sound:
  "collect_dims gid labels ds = Inr ts \<Longrightarrow>
   (\<forall>t\<in>set ts. triple_holds ev i t) = (\<forall>d\<in>set ds. dim_holds ev labels i d)"
proof (induction ds arbitrary: ts)
  case Nil
  then show ?case by simp
next
  case (Cons d ds)
  from Cons.prems obtain j rest where
    j: "index_of labels (label d) = Some j" and
    rest: "collect_dims gid labels ds = Inr rest" and
    ts: "ts = (j, dim_min d, dim_max d) # rest"
    by (auto split: if_splits option.splits sum.splits)
  show ?case using Cons.IH [OF rest] j by (simp add: ts triple_holds_def dim_holds_def)
qed

lemma collect_dims_total:
  "\<forall>d\<in>set ds. label d \<in> set labels \<Longrightarrow>
   \<forall>d\<in>set ds. dim_min d \<noteq> None \<or> dim_max d \<noteq> None \<Longrightarrow>
   \<exists>ts. collect_dims gid labels ds = Inr ts \<and> (\<forall>t\<in>set ts. fst t < length labels)"
proof (induction ds)
  case Nil
  then show ?case by simp
next
  case (Cons d ds)
  then obtain ts where ts: "collect_dims gid labels ds = Inr ts"
    and b: "\<forall>t\<in>set ts. fst t < length labels" by auto
  from Cons.prems(1) obtain j where j: "index_of labels (label d) = Some j"
    using index_of_member [of "label d" labels] by auto
  have "j < length labels" using j by (rule index_of_less)
  then show ?case using ts b j Cons.prems(2) by auto
qed

lemma apply_bounds_total:
  "\<forall>t\<in>set ts. fst t < shape1 ev \<Longrightarrow> \<exists>msk. apply_bounds ev ts results = Inr msk"
proof (induction ts arbitrary: results)
  case Nil
  then show ?case by simp
next
  case (Cons t ts)
  obtain j mn mx where t: "t = (j, mn, mx)" by (cases t)
  have j: "j < shape1 ev" using Cons.prems by (simp add: t)
  obtain r1 where r1: "(case mn of None \<Rightarrow> Inr results | Some m \<Rightarrow> and_ge ev j m results) = Inr r1"
    using j by (cases mn) (auto simp: and_ge_def column_def)
  obtain r2 where r2: "(case mx of None \<Rightarrow> Inr r1 | Some m \<Rightarrow> and_lt ev j m r1) = Inr r2"
    using j by (cases mx) (auto simp: and_lt_def column_def)
  obtain msk where "apply_bounds ev ts r2 = Inr msk"
    using Cons.IH [of r2] Cons.prems by auto
  then show ?case using r1 r2 by (simp add: t)
qed

text \<open>
  C1. Whenever \<open>RectangleGate.apply\<close> returns a mask, the mask has one entry per event, and
  the entry of event \<open>i\<close> is true exactly when every dimension of the gate holds of the
  event: its value in the dimension's channel is \<open>\<ge> min\<close> when a minimum is present and
  \<open>< max\<close> when a maximum is present (lower bound included, upper bound excluded), the
  dimensions combined by conjunction.
\<close>

theorem rectangle_apply_membership:
  assumes "RectangleGate_apply g ev pnn_labels = Inr msk"
  shows "length msk = shape0 ev \<and>
         (\<forall>i<shape0 ev. msk ! i = (\<forall>d\<in>set (dimensions g). dim_holds ev pnn_labels i d))"
proof -
  from assms obtain ts where
    ts: "collect_dims (gate_id g) pnn_labels (dimensions g) = Inr ts" and
    m: "apply_bounds ev ts (replicate (shape0 ev) True) = Inr msk"
    by (auto simp: RectangleGate_apply_def split: if_splits sum.splits)
  have "length msk = shape0 ev \<and>
      (\<forall>i<shape0 ev. msk ! i =
         (replicate (shape0 ev) True ! i \<and> (\<forall>t\<in>set ts. triple_holds ev i t)))"
    using apply_bounds_sound [OF m] by simp
  then show ?thesis using collect_dims_sound [OF ts, of ev] by simp
qed

theorem rectangle_apply_membership_witness:
  "RectangleGate_apply ex_gate_x ex_events [''X'', ''Y''] = Inr [True, False, False, True] \<and>
   length [True, False, False, True] = shape0 ex_events \<and>
   (\<forall>d\<in>set (dimensions ex_gate_x). dim_holds ex_events [''X'', ''Y''] 0 d) = True \<and>
   (\<forall>d\<in>set (dimensions ex_gate_x). dim_holds ex_events [''X'', ''Y''] 1 d) = False \<and>
   (\<forall>d\<in>set (dimensions ex_gate_x). dim_holds ex_events [''X'', ''Y''] 2 d) = False \<and>
   (\<forall>d\<in>set (dimensions ex_gate_x). dim_holds ex_events [''X'', ''Y''] 3 d) = True"
proof -
  have h: "RectangleGate_apply ex_gate_x ex_events [''X'', ''Y''] = Inr [True, False, False, True]"
    by code_simp
  have n: "shape0 ex_events = 4" by (simp add: ex_events_def)
  have i: "(0::nat) < 4" "(1::nat) < 4" "(2::nat) < 4" "(3::nat) < 4" by simp_all
  have l: "length [True, False, False, True] = shape0 ex_events"
    and a: "\<forall>i<shape0 ex_events. [True, False, False, True] ! i =
        (\<forall>d\<in>set (dimensions ex_gate_x). dim_holds ex_events [''X'', ''Y''] i d)"
    using rectangle_apply_membership [OF h] by blast+
  have a0: "(\<forall>d\<in>set (dimensions ex_gate_x). dim_holds ex_events [''X'', ''Y''] 0 d) =
      [True, False, False, True] ! 0"
    using a i(1) unfolding n by blast
  have a1: "(\<forall>d\<in>set (dimensions ex_gate_x). dim_holds ex_events [''X'', ''Y''] 1 d) =
      [True, False, False, True] ! 1"
    using a i(2) unfolding n by blast
  have a2: "(\<forall>d\<in>set (dimensions ex_gate_x). dim_holds ex_events [''X'', ''Y''] 2 d) =
      [True, False, False, True] ! 2"
    using a i(3) unfolding n by blast
  have a3: "(\<forall>d\<in>set (dimensions ex_gate_x). dim_holds ex_events [''X'', ''Y''] 3 d) =
      [True, False, False, True] ! 3"
    using a i(4) unfolding n by blast
  have v: "[True, False, False, True] ! 0 = True" "[True, False, False, True] ! 1 = False"
    "[True, False, False, True] ! 2 = False" "[True, False, False, True] ! 3 = True"
    by (simp_all add: numeral_eq_Suc)
  show ?thesis using h l a0 a1 a2 a3 unfolding v by blast
qed

text \<open>
  C10. When the column count of the events equals the number of labels, every dimension's
  label is among the labels and every dimension has a bound, \<open>RectangleGate.apply\<close> returns
  a boolean array with one entry per event row; for a gate with no dimension the array
  is all \<open>True\<close>.
\<close>

theorem rectangle_apply_returns_mask:
  assumes "shape1 ev = length pnn_labels"
    and "\<forall>d\<in>set (dimensions g). label d \<in> set pnn_labels"
    and "\<forall>d\<in>set (dimensions g). dim_min d \<noteq> None \<or> dim_max d \<noteq> None"
  shows "\<exists>msk. RectangleGate_apply g ev pnn_labels = Inr msk \<and> length msk = shape0 ev \<and>
           (dimensions g = [] \<longrightarrow> msk = replicate (shape0 ev) True)"
proof -
  obtain ts where ts: "collect_dims (gate_id g) pnn_labels (dimensions g) = Inr ts"
    and b: "\<forall>t\<in>set ts. fst t < length pnn_labels"
    using collect_dims_total [OF assms(2) assms(3)] by blast
  obtain msk where m: "apply_bounds ev ts (replicate (shape0 ev) True) = Inr msk"
    using apply_bounds_total [of ts ev] b assms(1) by auto
  have r: "RectangleGate_apply g ev pnn_labels = Inr msk"
    using ts m assms(1) by (simp add: RectangleGate_apply_def)
  have l: "length msk = shape0 ev" using apply_bounds_sound [OF m] by simp
  have e: "dimensions g = [] \<longrightarrow> msk = replicate (shape0 ev) True"
    using ts m by auto
  show ?thesis using r l e by blast
qed

theorem rectangle_apply_returns_mask_witness:
  "(\<exists>msk. RectangleGate_apply ex_gate_x ex_events [''X'', ''Y''] = Inr msk \<and>
      length msk = shape0 ex_events) \<and>
   dimensions ex_gate_none = [] \<and>
   RectangleGate_apply ex_gate_none ex_events [''X'', ''Y''] = Inr [True, True, True, True]"
proof -
  have a: "shape1 ex_events = length [''X'', ''Y'']" by (simp add: ex_events_def)
  have b: "\<forall>d\<in>set (dimensions ex_gate_x). label d \<in> set [''X'', ''Y'']"
    by (simp add: ex_gate_x_def)
  have c: "\<forall>d\<in>set (dimensions ex_gate_x). dim_min d \<noteq> None \<or> dim_max d \<noteq> None"
    by (simp add: ex_gate_x_def)
  have b0: "\<forall>d\<in>set (dimensions ex_gate_none). label d \<in> set [''X'', ''Y'']"
    by (simp add: ex_gate_none_def)
  have c0: "\<forall>d\<in>set (dimensions ex_gate_none). dim_min d \<noteq> None \<or> dim_max d \<noteq> None"
    by (simp add: ex_gate_none_def)
  have d0: "dimensions ex_gate_none = []" by (simp add: ex_gate_none_def)
  have s0: "replicate (shape0 ex_events) True = [True, True, True, True]"
    by (simp add: ex_events_def numeral_eq_Suc)
  show ?thesis
    using rectangle_apply_returns_mask [OF a b c] rectangle_apply_returns_mask [OF a b0 c0] d0 s0
    by auto
qed

subsection \<open>Building a strategy\<close>

lemma dict_set_new: "k \<notin> set (dict_keys d) \<Longrightarrow> dict_set d k v = d @ [(k, v)]"
  by (induction d) (auto simp: dict_keys_def)

lemma init_gates_distinct:
  "map (RectangleGate_init pf) els = map Inr gs \<Longrightarrow>
   distinct (dict_keys acc @ map gate_id gs) \<Longrightarrow>
   init_gates pf els acc = Inr (acc @ map (\<lambda>g. (gate_id g, g)) gs)"
proof (induction els arbitrary: gs acc)
  case Nil
  then show ?case by simp
next
  case (Cons el els)
  from Cons.prems(1) obtain g gs' where gs: "gs = g # gs'"
    and g: "RectangleGate_init pf el = Inr g"
    and rest: "map (RectangleGate_init pf) els = map Inr gs'"
    by (cases gs) auto
  have fresh: "gate_id g \<notin> set (dict_keys acc)" using Cons.prems(2) by (auto simp: gs)
  have d: "distinct (dict_keys (acc @ [(gate_id g, g)]) @ map gate_id gs')"
    using Cons.prems(2) by (auto simp: gs dict_keys_def)
  show ?case
    using Cons.IH [OF rest d] g fresh by (simp add: gs dict_set_new)
qed

lemma init_gates_duplicate:
  "map (RectangleGate_init pf) els = map Inr gs \<Longrightarrow>
   \<not> distinct (dict_keys acc @ map gate_id gs) \<Longrightarrow> distinct (dict_keys acc) \<Longrightarrow>
   \<exists>k. init_gates pf els acc = Inl (DuplicateGateId k)"
proof (induction els arbitrary: gs acc)
  case Nil
  then show ?case by simp
next
  case (Cons el els)
  from Cons.prems(1) obtain g gs' where gs: "gs = g # gs'"
    and g: "RectangleGate_init pf el = Inr g"
    and rest: "map (RectangleGate_init pf) els = map Inr gs'"
    by (cases gs) auto
  show ?case
  proof (cases "gate_id g \<in> set (dict_keys acc)")
    case True
    then show ?thesis using g by simp
  next
    case False
    have d: "distinct (dict_keys (acc @ [(gate_id g, g)]))"
      using False Cons.prems(3) by (auto simp: dict_keys_def)
    have nd: "\<not> distinct (dict_keys (acc @ [(gate_id g, g)]) @ map gate_id gs')"
      using Cons.prems(2) False by (auto simp: gs dict_keys_def)
    show ?thesis
      using Cons.IH [OF rest nd d] g False by (simp add: dict_set_new)
  qed
qed

text \<open>
  C3 (as the code has it). The key of \<open>self.gates\<close> is the bare gate id. When every gate
  element constructs, \<open>GatingStrategy.__init__\<close> succeeds if the ids of the gates are
  pairwise distinct, and then stores each gate under its id in document order; it raises
  the duplicate error if two gates share an id. The parents of the gates play no part.
\<close>

theorem init_succeeds_iff_ids_distinct:
  assumes "map (RectangleGate_init pf) els = map Inr gs"
  shows "(distinct (map gate_id gs) \<longrightarrow>
            GatingStrategy_init pf els = Inr \<lparr>gates = map (\<lambda>g. (gate_id g, g)) gs\<rparr>) \<and>
         (\<not> distinct (map gate_id gs) \<longrightarrow>
            (\<exists>k. GatingStrategy_init pf els = Inl (DuplicateGateId k)))"
  using init_gates_distinct [OF assms, of "[]"] init_gates_duplicate [OF assms, of "[]"]
  by (auto simp: GatingStrategy_init_def dict_keys_def)

theorem init_succeeds_iff_ids_distinct_witness:
  "map (RectangleGate_init ex_float) [ex_el_r, ex_el_g_root] = map Inr [ex_gate_x, ex_gate_g None] \<and>
   distinct (map gate_id [ex_gate_x, ex_gate_g None]) \<and>
   GatingStrategy_init ex_float [ex_el_r, ex_el_g_root] =
     Inr \<lparr>gates = [(''R'', ex_gate_x), (''G'', ex_gate_g None)]\<rparr> \<and>
   map (RectangleGate_init ex_float) [ex_el_g_root, ex_el_g_child] =
     map Inr [ex_gate_g None, ex_gate_g (Some ''R'')] \<and>
   \<not> distinct (map gate_id [ex_gate_g None, ex_gate_g (Some ''R'')]) \<and>
   (\<exists>k. GatingStrategy_init ex_float [ex_el_g_root, ex_el_g_child] = Inl (DuplicateGateId k))"
proof -
  have a: "map (RectangleGate_init ex_float) [ex_el_r, ex_el_g_root] =
      map Inr [ex_gate_x, ex_gate_g None]"
    by code_simp
  have b: "map (RectangleGate_init ex_float) [ex_el_g_root, ex_el_g_child] =
      map Inr [ex_gate_g None, ex_gate_g (Some ''R'')]"
    by code_simp
  have da: "distinct (map gate_id [ex_gate_x, ex_gate_g None])"
    by (simp add: ex_gate_x_def ex_gate_g_def)
  have db: "\<not> distinct (map gate_id [ex_gate_g None, ex_gate_g (Some ''R'')])"
    by (simp add: ex_gate_g_def)
  have ok: "GatingStrategy_init ex_float [ex_el_r, ex_el_g_root] =
      Inr \<lparr>gates = map (\<lambda>g. (gate_id g, g)) [ex_gate_x, ex_gate_g None]\<rparr>"
    using init_succeeds_iff_ids_distinct [OF a] da by blast
  have ok': "GatingStrategy_init ex_float [ex_el_r, ex_el_g_root] =
      Inr \<lparr>gates = [(''R'', ex_gate_x), (''G'', ex_gate_g None)]\<rparr>"
    unfolding ok by (simp add: ex_gate_x_def ex_gate_g_def)
  have dup: "\<exists>k. GatingStrategy_init ex_float [ex_el_g_root, ex_el_g_child] =
      (Inl (DuplicateGateId k) :: error + int gating_strategy)"
    using init_succeeds_iff_ids_distinct [OF b] db by blast
  show ?thesis using a b da db ok' dup by blast
qed

text \<open>
  C3, as stated, fails: two gates with the bare id \<open>G\<close>, one at the root and one under
  the parent \<open>R\<close>, have different gate paths, and the construction raises the duplicate
  error.
\<close>

theorem same_id_different_parent_counterexample:
  "el_parent ex_el_g_root \<noteq> el_parent ex_el_g_child \<and>
   GatingStrategy_init ex_float [ex_el_r, ex_el_g_root, ex_el_g_child] =
     (Inl (DuplicateGateId ''G'') :: error + int gating_strategy)"
  by code_simp

lemma read_bound_err: "read_bound pf xs \<noteq> Inl (NoMinOrMax k)"
  by (auto simp: read_bound_def split: list.splits option.splits)

lemma Dimension_init_err: "Dimension_init pf el \<noteq> Inl (NoMinOrMax k)"
  using read_bound_err [of pf]
  by (auto simp: Dimension_init_def split: list.splits option.splits sum.splits)

lemma init_dimensions_err: "init_dimensions pf els \<noteq> Inl (NoMinOrMax k)"
  using Dimension_init_err [of pf]
  by (induction els) (auto split: sum.splits)

lemma RectangleGate_init_err: "RectangleGate_init pf el \<noteq> Inl (NoMinOrMax k)"
  using init_dimensions_err [of pf]
  by (auto simp: RectangleGate_init_def split: list.splits sum.splits)

lemma init_gates_err: "init_gates pf els acc \<noteq> Inl (NoMinOrMax k)"
  using RectangleGate_init_err [of pf]
  by (induction els arbitrary: acc) (auto split: sum.splits)

lemma collect_dims_unbounded:
  "\<forall>d\<in>set ds. label d \<in> set labels \<Longrightarrow>
   \<exists>d\<in>set ds. dim_min d = None \<and> dim_max d = None \<Longrightarrow>
   collect_dims gid labels ds = Inl (NoMinOrMax gid)"
proof (induction ds)
  case Nil
  then show ?case by simp
next
  case (Cons d ds)
  show ?case
  proof (cases "dim_min d = None \<and> dim_max d = None")
    case True
    then show ?thesis by simp
  next
    case False
    obtain j where j: "index_of labels (label d) = Some j"
      using Cons.prems(1) index_of_member [of "label d" labels] by auto
    have "collect_dims gid labels ds = Inl (NoMinOrMax gid)"
      using Cons.IH Cons.prems False by auto
    then show ?thesis using False j by auto
  qed
qed

text \<open>
  C9 (as the code has it). Constructing a strategy never raises the missing-bounds error,
  whatever the gate elements are; the error is raised by \<open>RectangleGate.apply\<close>, when a
  sample is gated: with matching column count and every label resolving, \<open>apply\<close> on a
  gate that has a dimension with neither bound raises "does not include a min or max
  value".
\<close>

theorem missing_bounds_raised_by_apply:
  "GatingStrategy_init pf els \<noteq> Inl (NoMinOrMax k) \<and>
   (shape1 ev = length pnn_labels \<and>
    (\<forall>d\<in>set (dimensions g). label d \<in> set pnn_labels) \<and>
    (\<exists>d\<in>set (dimensions g). dim_min d = None \<and> dim_max d = None) \<longrightarrow>
    RectangleGate_apply g ev pnn_labels = Inl (NoMinOrMax (gate_id g)))"
proof -
  have a: "GatingStrategy_init pf els \<noteq> Inl (NoMinOrMax k)"
    using init_gates_err [of pf els "[]" k]
    by (auto simp: GatingStrategy_init_def split: sum.splits)
  have b: "RectangleGate_apply g ev pnn_labels = Inl (NoMinOrMax (gate_id g))"
    if "shape1 ev = length pnn_labels"
      and "\<forall>d\<in>set (dimensions g). label d \<in> set pnn_labels"
      and "\<exists>d\<in>set (dimensions g). dim_min d = None \<and> dim_max d = None"
    using collect_dims_unbounded [OF that(2) that(3), of "gate_id g"] that(1)
    by (simp add: RectangleGate_apply_def)
  show ?thesis using a b by blast
qed

theorem missing_bounds_raised_by_apply_witness:
  "GatingStrategy_init ex_float [ex_el_u] \<noteq> Inl (NoMinOrMax ''U'') \<and>
   shape1 ex_events = length [''X'', ''Y''] \<and>
   label ` set (dimensions ex_gate_u) \<subseteq> set [''X'', ''Y''] \<and>
   (\<exists>d\<in>set (dimensions ex_gate_u). dim_min d = None \<and> dim_max d = None) \<and>
   RectangleGate_apply ex_gate_u ex_events [''X'', ''Y''] = Inl (NoMinOrMax (gate_id ex_gate_u))"
proof -
  have a: "shape1 ex_events = length [''X'', ''Y'']" by (simp add: ex_events_def)
  have b: "\<forall>d\<in>set (dimensions ex_gate_u). label d \<in> set [''X'', ''Y'']"
    by (simp add: ex_gate_u_def)
  have c: "\<exists>d\<in>set (dimensions ex_gate_u). dim_min d = None \<and> dim_max d = None"
    by (simp add: ex_gate_u_def)
  have b': "label ` set (dimensions ex_gate_u) \<subseteq> set [''X'', ''Y'']"
    using b by blast
  show ?thesis
    using missing_bounds_raised_by_apply [of ex_float "[ex_el_u]" "''U''" ex_events
        "[''X'', ''Y'']" ex_gate_u] a b b' c
    by blast
qed

text \<open>
  C9, as stated, fails: the strategy whose one gate has a dimension with no min and no max
  attribute is constructed without error, and the error appears when the gate is applied
  to a sample.
\<close>

theorem missing_bounds_not_detected_at_build_counterexample:
  "GatingStrategy_init ex_float [ex_el_u] = Inr \<lparr>gates = [(''U'', ex_gate_u)]\<rparr> \<and>
   gate_sample \<lparr>gates = [(''U'', ex_gate_u)]\<rparr> ex_sample (Some ''U'') = Inl (NoMinOrMax ''U'')"
  by code_simp

subsection \<open>Gating one sample\<close>

text \<open>
  C2. With \<open>gate_id = None\<close>, \<open>gate_sample\<close> on a strategy that has a gate raises
  AttributeError instead of returning one result per gate: the loop iterates over the
  dict, so over its keys, and a key has no \<open>apply\<close>. With the id of the gate given, the
  same strategy and sample give the gate's mask.
\<close>

theorem gate_sample_none_raises:
  "gate_sample ex_strategy ex_sample None = Inl AttributeError \<and>
   gate_sample ex_strategy ex_sample (Some ''R'') = Inr [(Some ''R'', [True, False, False, True])]"
  by code_simp

subsection \<open>Quadrant positions\<close>

lemma scan_values_sorted:
  "sorted vs \<Longrightarrow>
   scan_values vs loc (q_min, q_max) =
     (if \<exists>v\<in>set vs. v \<le> loc then Some (Max {v \<in> set vs. v \<le> loc}) else q_min,
      if \<exists>v\<in>set vs. loc < v then Some (Min {v \<in> set vs. loc < v}) else q_max)"
proof (induction vs arbitrary: q_min)
  case Nil
  then show ?case by simp
next
  case (Cons v vs)
  have sv: "sorted vs" and le: "\<forall>x\<in>set vs. v \<le> x" using Cons.prems by auto
  show ?case
  proof (cases "loc < v")
    case True
    have none: "\<not> (\<exists>x\<in>set (v # vs). x \<le> loc)" using True le by auto
    have eq: "{x \<in> set (v # vs). loc < x} = set (v # vs)" using True le by auto
    have "Min (set (v # vs)) = v" using le by (auto intro: Min_eqI)
    then show ?thesis using True none eq by simp
  next
    case False
    then have vle: "v \<le> loc" by simp
    have gt: "{x \<in> set (v # vs). loc < x} = {x \<in> set vs. loc < x}" using False by auto
    have gte: "(\<exists>x\<in>set (v # vs). loc < x) = (\<exists>x\<in>set vs. loc < x)" using False by auto
    have mx: "Max {x \<in> set (v # vs). x \<le> loc} =
        (if \<exists>x\<in>set vs. x \<le> loc then Max {x \<in> set vs. x \<le> loc} else v)"
    proof (cases "\<exists>x\<in>set vs. x \<le> loc")
      case True
      then have ne: "{x \<in> set vs. x \<le> loc} \<noteq> {}" by auto
      have ins: "{x \<in> set (v # vs). x \<le> loc} = insert v {x \<in> set vs. x \<le> loc}"
        using vle by auto
      have fin: "finite {x \<in> set vs. x \<le> loc}" by simp
      have vm: "v \<le> Max {x \<in> set vs. x \<le> loc}"
        using ne le True by (auto simp: Max_ge_iff)
      have "Max (insert v {x \<in> set vs. x \<le> loc}) = max v (Max {x \<in> set vs. x \<le> loc})"
        using Max_insert [OF fin ne] .
      then have "Max {x \<in> set (v # vs). x \<le> loc} = Max {x \<in> set vs. x \<le> loc}"
        using vm ins by (simp only: max.absorb2)
      then show ?thesis using True by (simp only: if_True)
    next
      case F: False
      then have "{x \<in> set (v # vs). x \<le> loc} = {v}" using vle by auto
      then show ?thesis using F by simp
    qed
    show ?thesis
      using False vle Cons.IH [OF sv, of "Some v"] mx gt gte by auto
  qed
qed

lemma scan_dividers_filter:
  "scan_dividers ds divider loc st =
   scan_dividers (filter (\<lambda>d. div_id d = divider) ds) divider loc st"
proof (induction ds arbitrary: st)
  case Nil
  then show ?case by simp
next
  case (Cons d ds)
  obtain l a b where st: "st = (l, a, b)" by (cases st)
  show ?case using Cons.IH by (auto simp: st split: prod.splits)
qed

text \<open>
  C6. For a position that references a divider (the one divider with that id) with split
  points \<open>V\<close> and the location \<open>L\<close>: \<open>min\<close> is the greatest element of \<open>V\<close> that is
  \<open>\<le> L\<close>, \<open>None\<close> when there is none, and \<open>max\<close> is the least element of \<open>V\<close> that is
  \<open>> L\<close>, \<open>None\<close> when there is none. Both depend on the set of split points only, not
  on the order in which the divider lists them.
\<close>

theorem quadrant_position_bounds:
  assumes "filter (\<lambda>d. div_id d = divider) dividers = [d]"
  shows "quadrant_position dividers divider loc =
     Inr \<lparr>pos_divider = divider, pos_dimension = dimension_ref d, pos_location = loc,
          pos_min = (if \<exists>v\<in>set (div_values d). v \<le> loc
                     then Some (Max {v \<in> set (div_values d). v \<le> loc}) else None),
          pos_max = (if \<exists>v\<in>set (div_values d). loc < v
                     then Some (Min {v \<in> set (div_values d). loc < v}) else None)\<rparr>"
proof -
  have "d \<in> set (filter (\<lambda>d. div_id d = divider) dividers)"
    using assms by simp
  then have d: "div_id d = divider" by simp
  have "scan_dividers dividers divider loc (None, None, None) =
      scan_dividers [d] divider loc (None, None, None)"
    using scan_dividers_filter [of dividers divider loc] assms by simp
  also have "\<dots> = (Some (dimension_ref d),
       if \<exists>v\<in>set (div_values d). v \<le> loc
       then Some (Max {v \<in> set (div_values d). v \<le> loc}) else None,
       if \<exists>v\<in>set (div_values d). loc < v
       then Some (Min {v \<in> set (div_values d). loc < v}) else None)"
    using d scan_values_sorted [of "sort (div_values d)" loc None None] by simp
  finally show ?thesis by (simp add: quadrant_position_def)
qed

theorem quadrant_position_bounds_witness:
  "filter (\<lambda>d. div_id d = ''A'') ex_dividers = [ex_divider_a] \<and>
   quadrant_position ex_dividers ''A'' 30 =
     Inr \<lparr>pos_divider = ''A'', pos_dimension = ''X'', pos_location = 30,
          pos_min = Some 30, pos_max = Some 50\<rparr> \<and>
   quadrant_position ex_dividers ''A'' 60 =
     Inr \<lparr>pos_divider = ''A'', pos_dimension = ''X'', pos_location = 60,
          pos_min = Some 50, pos_max = None\<rparr>"
proof -
  have f: "filter (\<lambda>d. div_id d = ''A'') ex_dividers = [ex_divider_a]"
    by (simp add: ex_dividers_def ex_divider_a_def)
  have v: "div_values ex_divider_a = [50, 10, 30]" "dimension_ref ex_divider_a = ''X''"
    by (simp_all add: ex_divider_a_def)
  have le: "\<exists>v\<in>set [50, 10, 30::int]. v \<le> 30" "\<exists>v\<in>set [50, 10, 30::int]. 30 < v"
    "\<exists>v\<in>set [50, 10, 30::int]. v \<le> 60" "\<not> (\<exists>v\<in>set [50, 10, 30::int]. 60 < v)"
    by simp_all
  have m: "Max {v \<in> set [50, 10, 30::int]. v \<le> 30} = 30"
    "Min {v \<in> set [50, 10, 30::int]. 30 < v} = 50"
    "Max {v \<in> set [50, 10, 30::int]. v \<le> 60} = 50"
    by code_simp+
  have a: "quadrant_position ex_dividers ''A'' 30 =
     Inr \<lparr>pos_divider = ''A'', pos_dimension = ''X'', pos_location = 30,
          pos_min = Some 30, pos_max = Some 50\<rparr>"
    using quadrant_position_bounds [OF f, of 30] by (simp only: v le m if_True)
  have b: "quadrant_position ex_dividers ''A'' 60 =
     Inr \<lparr>pos_divider = ''A'', pos_dimension = ''X'', pos_location = 60,
          pos_min = Some 50, pos_max = None\<rparr>"
    using quadrant_position_bounds [OF f, of 60] by (simp only: v le m if_True if_False)
  show ?thesis using f a b by blast
qed

subsection \<open>Gating many samples\<close>

lemma proc_count_min: "proc_count n c = min n (c - 1)"
  by (auto simp: proc_count_def min_def)

lemma seq_success:
  "map (\<lambda>(s, x). gs s x verbose) (zip (drop i sts) xs) = map Inr rs \<Longrightarrow>
   i + length xs \<le> length sts \<Longrightarrow>
   gate_samples_seq gs sts xs verbose i acc = Inr (acc @ rs)"
proof (induction xs arbitrary: i acc rs)
  case Nil
  then show ?case by simp
next
  case (Cons x xs)
  have i: "i < length sts" using Cons.prems(2) by simp
  have d: "drop i sts = sts ! i # drop (Suc i) sts"
    using i by (simp add: Cons_nth_drop_Suc)
  from Cons.prems(1) obtain r rs' where rs: "rs = r # rs'"
    and r: "gs (sts ! i) x verbose = Inr r"
    and rest: "map (\<lambda>(s, x). gs s x verbose) (zip (drop (Suc i) sts) xs) = map Inr rs'"
    unfolding d by (cases rs) auto
  have "gate_samples_seq gs sts xs verbose (Suc i) (acc @ [r]) = Inr ((acc @ [r]) @ rs')"
    using Cons.IH [OF rest] Cons.prems(2) by simp
  then show ?case using i r by (simp add: rs)
qed

lemma seq_failure:
  "zip (drop i sts) xs = pre @ (s, x) # post \<Longrightarrow>
   map (\<lambda>(s, x). gs s x verbose) pre = map Inr rs \<Longrightarrow>
   gs s x verbose = Inl e \<Longrightarrow>
   i + length xs \<le> length sts \<Longrightarrow>
   gate_samples_seq gs sts xs verbose i acc = Inl e"
proof (induction pre arbitrary: i acc rs xs)
  case Nil
  from Nil.prems(1) obtain x' xs' where xs: "xs = x' # xs'" by (cases xs) auto
  have i: "i < length sts" using Nil.prems(4) by (simp add: xs)
  have d: "drop i sts = sts ! i # drop (Suc i) sts"
    using i by (simp add: Cons_nth_drop_Suc)
  have "sts ! i = s \<and> x' = x" using Nil.prems(1) unfolding d xs by simp
  then show ?case using i Nil.prems(3) by (simp add: xs)
next
  case (Cons p pre)
  from Cons.prems(1) obtain x' xs' where xs: "xs = x' # xs'" by (cases xs) auto
  have i: "i < length sts" using Cons.prems(4) by (simp add: xs)
  have d: "drop i sts = sts ! i # drop (Suc i) sts"
    using i by (simp add: Cons_nth_drop_Suc)
  have p: "p = (sts ! i, x')"
    and rest: "zip (drop (Suc i) sts) xs' = pre @ (s, x) # post"
    using Cons.prems(1) unfolding d xs by simp_all
  from Cons.prems(2) obtain r rs' where rs: "rs = r # rs'"
    and r: "gs (sts ! i) x' verbose = Inr r"
    and pre: "map (\<lambda>(s, x). gs s x verbose) pre = map Inr rs'"
    by (cases rs) (auto simp: p)
  have "gate_samples_seq gs sts xs' verbose (Suc i) (acc @ [r]) = Inl e"
    using Cons.IH [OF rest pre Cons.prems(3)] Cons.prems(4) by (simp add: xs)
  then show ?case using i r by (simp add: xs)
qed

text \<open>
  C8. The number of processes \<open>_gate_samples\<close> asks of the pool is
  \<open>min(sample_count, cpu_count - 1)\<close>, so at most the sample count and at most one less
  than the CPU count; the pool is what computes the result when \<open>multi_proc\<close> and \<open>use_mp\<close>
  hold and there is more than one sample, and with at most one sample the sequential loop
  computes it.
\<close>

theorem worker_count_is_min:
  "proc_count (int (length samples)) (cpu_count env) = min (int (length samples)) (cpu_count env - 1) \<and>
   proc_count (int (length samples)) (cpu_count env) \<le> int (length samples) \<and>
   proc_count (int (length samples)) (cpu_count env) \<le> cpu_count env - 1 \<and>
   (multi_proc env \<and> 1 < length samples \<and> use_mp \<longrightarrow>
      mp_gate_samples env gs gating_strategies samples verbose use_mp =
        (case pool_open env (min (int (length samples)) (cpu_count env - 1)) of
           Some e \<Rightarrow> Inl e
         | None \<Rightarrow>
             (case build_data gating_strategies samples verbose 0 of
                Inl e \<Rightarrow> Inl e
              | Inr data \<Rightarrow>
                  pool_map env (min (int (length samples)) (cpu_count env - 1))
                    (mp_gate_sample gs) data))) \<and>
   (length samples \<le> 1 \<longrightarrow>
      mp_gate_samples env gs gating_strategies samples verbose use_mp =
        gate_samples_seq gs gating_strategies samples verbose 0 [])"
proof -
  have m: "proc_count (int (length samples)) (cpu_count env) =
      min (int (length samples)) (cpu_count env - 1)"
    by (rule proc_count_min)
  have a: "mp_gate_samples env gs gating_strategies samples verbose use_mp =
        (case pool_open env (min (int (length samples)) (cpu_count env - 1)) of
           Some e \<Rightarrow> Inl e
         | None \<Rightarrow>
             (case build_data gating_strategies samples verbose 0 of
                Inl e \<Rightarrow> Inl e
              | Inr data \<Rightarrow>
                  pool_map env (min (int (length samples)) (cpu_count env - 1))
                    (mp_gate_sample gs) data))"
    if "multi_proc env \<and> 1 < length samples \<and> use_mp"
    using that by (simp add: mp_gate_samples_def Let_def m)
  have b: "mp_gate_samples env gs gating_strategies samples verbose use_mp =
        gate_samples_seq gs gating_strategies samples verbose 0 []"
    if "length samples \<le> 1"
    using that by (simp add: mp_gate_samples_def Let_def)
  show ?thesis using m a b by simp
qed

theorem worker_count_is_min_witness:
  "multi_proc ex_env \<and> 1 < length [''a.fcs'', ''b.fcs'', ''c.fcs''] \<and>
   min (int (length [''a.fcs'', ''b.fcs'', ''c.fcs''])) (cpu_count ex_env - 1) = 3 \<and>
   mp_gate_samples ex_env ex_gs [''sa'', ''sb'', ''sc''] [''a.fcs'', ''b.fcs'', ''c.fcs''] False True =
     pool_map ex_env 3 (mp_gate_sample ex_gs)
       [(''sa'', ''a.fcs'', False), (''sb'', ''b.fcs'', False), (''sc'', ''c.fcs'', False)] \<and>
   length [''a.fcs''] \<le> 1 \<and>
   mp_gate_samples ex_env ex_gs [''sa''] [''a.fcs''] False True =
     gate_samples_seq ex_gs [''sa''] [''a.fcs''] False 0 []"
proof -
  have h: "multi_proc ex_env \<and> 1 < length [''a.fcs'', ''b.fcs'', ''c.fcs''] \<and> True"
    by (simp add: ex_env_def)
  have m: "min (int (length [''a.fcs'', ''b.fcs'', ''c.fcs''])) (cpu_count ex_env - 1) = 3"
    by (simp add: ex_env_def)
  have o: "pool_open ex_env 3 = None" by (simp add: ex_env_def)
  have d: "build_data [''sa'', ''sb'', ''sc''] [''a.fcs'', ''b.fcs'', ''c.fcs''] False 0 =
      Inr [(''sa'', ''a.fcs'', False), (''sb'', ''b.fcs'', False), (''sc'', ''c.fcs'', False)]"
    by simp
  have l: "length [''a.fcs''] \<le> 1" by simp
  have a: "mp_gate_samples ex_env ex_gs [''sa'', ''sb'', ''sc''] [''a.fcs'', ''b.fcs'', ''c.fcs''] False True =
     pool_map ex_env 3 (mp_gate_sample ex_gs)
       [(''sa'', ''a.fcs'', False), (''sb'', ''b.fcs'', False), (''sc'', ''c.fcs'', False)]"
    using worker_count_is_min [of "[''a.fcs'', ''b.fcs'', ''c.fcs'']" ex_env True ex_gs
        "[''sa'', ''sb'', ''sc'']" False] h
    by (simp only: m o d option.case sum.case)
  have b: "mp_gate_samples ex_env ex_gs [''sa''] [''a.fcs''] False True =
     gate_samples_seq ex_gs [''sa''] [''a.fcs''] False 0 []"
    using worker_count_is_min [of "[''a.fcs'']" ex_env True ex_gs "[''sa'']" False] l by blast
  show ?thesis using h m a b l by blast
qed

text \<open>
  C5 (as the code has it). In the sequential branch, with a strategy for every sample:
  when every unit succeeds, \<open>_gate_samples\<close> returns the results of all units in sample
  order; when a unit fails and the units before it succeed, \<open>_gate_samples\<close> raises the
  error of that unit and returns no result. When \<open>_gate_samples\<close> raises,
  \<open>analyze_samples\<close> raises the same error and leaves \<open>self._results_lut\<close> as it was.
\<close>

theorem failing_unit_aborts_batch:
  assumes "\<not> (multi_proc env \<and> 1 < length samples \<and> use_mp)"
    and "length samples \<le> length gating_strategies"
  shows "(map (\<lambda>(s, x). gs s x verbose) (zip gating_strategies samples) = map Inr rs \<longrightarrow>
            mp_gate_samples env gs gating_strategies samples verbose use_mp = Inr rs) \<and>
         (zip gating_strategies samples = pre @ (s, x) # post \<and>
          map (\<lambda>(s, x). gs s x verbose) pre = map Inr rs' \<and> gs s x verbose = Inl e \<longrightarrow>
            mp_gate_samples env gs gating_strategies samples verbose use_mp = Inl e) \<and>
         (collect_runs original_filename mbrs opt_samples = Inr (gating_strategies, samples) \<and>
          mp_gate_samples env gs gating_strategies samples verbose use_mp = Inl e' \<longrightarrow>
            analyze_samples env gs original_filename mbrs group_name opt_samples verbose
              use_mp results_lut = (Some e', results_lut))"
proof -
  have sq: "mp_gate_samples env gs gating_strategies samples verbose use_mp =
      gate_samples_seq gs gating_strategies samples verbose 0 []"
    using assms(1) by (auto simp: mp_gate_samples_def Let_def)
  have a: "gate_samples_seq gs gating_strategies samples verbose 0 [] = Inr rs"
    if "map (\<lambda>(s, x). gs s x verbose) (zip gating_strategies samples) = map Inr rs"
    using seq_success [of gs verbose 0 gating_strategies samples rs "[]"] that assms(2) by simp
  have b: "gate_samples_seq gs gating_strategies samples verbose 0 [] = Inl e"
    if "zip gating_strategies samples = pre @ (s, x) # post"
      and "map (\<lambda>(s, x). gs s x verbose) pre = map Inr rs'" and "gs s x verbose = Inl e"
    using seq_failure [of 0 gating_strategies samples pre s x post gs verbose rs' e "[]"]
      that assms(2) by simp
  have c: "analyze_samples env gs original_filename mbrs group_name opt_samples verbose
              use_mp results_lut = (Some e', results_lut)"
    if "collect_runs original_filename mbrs opt_samples = Inr (gating_strategies, samples)"
      and "mp_gate_samples env gs gating_strategies samples verbose use_mp = Inl e'"
    using that by (simp add: analyze_samples_def)
  show ?thesis using sq a b c by auto
qed

theorem failing_unit_aborts_batch_witness:
  "\<not> (multi_proc ex_env \<and> 1 < length [''a.fcs'', ''bad.fcs'', ''c.fcs''] \<and> False) \<and>
   length [''a.fcs'', ''bad.fcs'', ''c.fcs''] \<le> length [''sa'', ''sb'', ''sc''] \<and>
   mp_gate_samples ex_env ex_gs [''sa'', ''sb'', ''sc''] [''a.fcs'', ''b.fcs'', ''c.fcs''] False False =
     Inr [\<lparr>sample_id = ''a.fcs'', report = [2]\<rparr>, \<lparr>sample_id = ''b.fcs'', report = [2]\<rparr>,
          \<lparr>sample_id = ''c.fcs'', report = [2]\<rparr>] \<and>
   mp_gate_samples ex_env ex_gs [''sa'', ''sb'', ''sc''] [''a.fcs'', ''bad.fcs'', ''c.fcs''] False False =
     Inl (GatingError ''bad.fcs'') \<and>
   analyze_samples ex_env ex_gs id [(''a.fcs'', ''sa''), (''bad.fcs'', ''sb''), (''c.fcs'', ''sc'')]
     ''default'' [Some ''a.fcs'', Some ''bad.fcs'', None, Some ''c.fcs''] False False [] =
     (Some (GatingError ''bad.fcs''), [])"
proof -
  have h1: "\<not> (multi_proc ex_env \<and> 1 < length [''a.fcs'', ''bad.fcs'', ''c.fcs''] \<and> False)"
    by simp
  have h1': "\<not> (multi_proc ex_env \<and> 1 < length [''a.fcs'', ''b.fcs'', ''c.fcs''] \<and> False)"
    by simp
  have h2: "length [''a.fcs'', ''bad.fcs'', ''c.fcs''] \<le> length [''sa'', ''sb'', ''sc'']"
    by simp
  have h2': "length [''a.fcs'', ''b.fcs'', ''c.fcs''] \<le> length [''sa'', ''sb'', ''sc'']"
    by simp
  have ok: "map (\<lambda>(s, x). ex_gs s x False)
        (zip [''sa'', ''sb'', ''sc''] [''a.fcs'', ''b.fcs'', ''c.fcs'']) =
      map Inr [\<lparr>sample_id = ''a.fcs'', report = [2]\<rparr>, \<lparr>sample_id = ''b.fcs'', report = [2]\<rparr>,
          \<lparr>sample_id = ''c.fcs'', report = [2]\<rparr>]"
    by (simp add: ex_gs_def)
  have z: "zip [''sa'', ''sb'', ''sc''] [''a.fcs'', ''bad.fcs'', ''c.fcs''] =
      [(''sa'', ''a.fcs'')] @ (''sb'', ''bad.fcs'') # [(''sc'', ''c.fcs'')]"
    by simp
  have pre: "map (\<lambda>(s, x). ex_gs s x False) [(''sa'', ''a.fcs'')] =
      map Inr [\<lparr>sample_id = ''a.fcs'', report = [2]\<rparr>]"
    by (simp add: ex_gs_def)
  have bad: "ex_gs ''sb'' ''bad.fcs'' False = Inl (GatingError ''bad.fcs'')"
    by (simp add: ex_gs_def)
  have cr: "collect_runs id [(''a.fcs'', ''sa''), (''bad.fcs'', ''sb''), (''c.fcs'', ''sc'')]
        [Some ''a.fcs'', Some ''bad.fcs'', None, Some ''c.fcs''] =
      Inr ([''sa'', ''sb'', ''sc''], [''a.fcs'', ''bad.fcs'', ''c.fcs''])"
    by simp
  have a: "mp_gate_samples ex_env ex_gs [''sa'', ''sb'', ''sc''] [''a.fcs'', ''b.fcs'', ''c.fcs'']
      False False =
     Inr [\<lparr>sample_id = ''a.fcs'', report = [2]\<rparr>, \<lparr>sample_id = ''b.fcs'', report = [2]\<rparr>,
          \<lparr>sample_id = ''c.fcs'', report = [2]\<rparr>]"
    using failing_unit_aborts_batch [OF h1' h2', of ex_gs False] ok by blast
  have b: "mp_gate_samples ex_env ex_gs [''sa'', ''sb'', ''sc''] [''a.fcs'', ''bad.fcs'', ''c.fcs'']
      False False = Inl (GatingError ''bad.fcs'')"
    using failing_unit_aborts_batch [OF h1 h2, of ex_gs False] z pre bad by blast
  have c: "analyze_samples ex_env ex_gs id [(''a.fcs'', ''sa''), (''bad.fcs'', ''sb''), (''c.fcs'', ''sc'')]
     ''default'' [Some ''a.fcs'', Some ''bad.fcs'', None, Some ''c.fcs''] False False [] =
     (Some (GatingError ''bad.fcs''), [])"
    using failing_unit_aborts_batch [OF h1 h2, of ex_gs False] cr b by blast
  show ?thesis using h1 h2 a b c by blast
qed

text \<open>
  C5, as stated, fails: of three units the second fails and the other two succeed on
  their own; the batch returns the error alone, and nothing is stored for any sample.
\<close>

theorem failed_unit_loses_results_counterexample:
  "ex_gs ''sa'' ''a.fcs'' False = Inr \<lparr>sample_id = ''a.fcs'', report = [2]\<rparr> \<and>
   ex_gs ''sc'' ''c.fcs'' False = Inr \<lparr>sample_id = ''c.fcs'', report = [2]\<rparr> \<and>
   mp_gate_samples ex_env ex_gs [''sa'', ''sb'', ''sc''] [''a.fcs'', ''bad.fcs'', ''c.fcs''] False False =
     Inl (GatingError ''bad.fcs'') \<and>
   analyze_samples ex_env ex_gs id [(''a.fcs'', ''sa''), (''bad.fcs'', ''sb''), (''c.fcs'', ''sc'')]
     ''default'' [Some ''a.fcs'', Some ''bad.fcs'', Some ''c.fcs''] False False [] =
     (Some (GatingError ''bad.fcs''), [])"
  by code_simp

subsection \<open>Sample groups and their strategies\<close>

lemma copy_refs_inv:
  assumes "copy_refs refs memo h = (refs', memo', h')"
    and "n0 \<le> next_addr h"
    and "\<forall>(c, c')\<in>set memo. c < n0 \<and> n0 \<le> c' \<and> c' < next_addr h \<and> components h c' = components h c"
    and "\<forall>(k, c)\<in>set refs. c < n0"
  shows "next_addr h \<le> next_addr h' \<and> strategies h' = strategies h \<and>
         (\<forall>c<next_addr h. components h' c = components h c) \<and>
         map fst refs' = map fst refs \<and>
         (\<forall>(k, c')\<in>set refs'. n0 \<le> c' \<and> c' < next_addr h') \<and>
         map (\<lambda>(k, c). (k, components h' c)) refs' = map (\<lambda>(k, c). (k, components h c)) refs"
  using assms
proof (induction refs arbitrary: memo h refs' memo' h')
  case Nil
  then show ?case by simp
next
  case (Cons r refs)
  obtain k c where r: "r = (k, c)" by (cases r)
  have cn: "c < n0" using Cons.prems(4) by (simp add: r)
  have rn: "\<forall>(k, c)\<in>set refs. c < n0" using Cons.prems(4) by simp
  show ?case
  proof (cases "map_of memo c")
    case (Some c')
    obtain rs m1 h1 where rec: "copy_refs refs memo h = (rs, m1, h1)"
      by (cases "copy_refs refs memo h") auto
    have res: "refs' = (k, c') # rs" "h' = h1"
      using Cons.prems(1) Some rec by (simp_all add: r)
    have ih: "next_addr h \<le> next_addr h1 \<and> strategies h1 = strategies h \<and>
         (\<forall>c<next_addr h. components h1 c = components h c) \<and>
         map fst rs = map fst refs \<and>
         (\<forall>(k, c')\<in>set rs. n0 \<le> c' \<and> c' < next_addr h1) \<and>
         map (\<lambda>(k, c). (k, components h1 c)) rs = map (\<lambda>(k, c). (k, components h c)) refs"
      using Cons.IH [OF rec Cons.prems(2) Cons.prems(3) rn] .
    have mem: "(c, c') \<in> set memo" using Some by (rule map_of_SomeD)
    then have m: "n0 \<le> c' \<and> c' < next_addr h \<and> components h c' = components h c"
      using Cons.prems(3) by auto
    then have "components h1 c' = components h c" using ih by auto
    then show ?thesis using ih m by (auto simp: res r)
  next
    case None
    define c' where "c' = next_addr h"
    define h1 where "h1 = h\<lparr>components := (components h)(c' := components h c), next_addr := Suc c'\<rparr>"
    have dc: "deepcopy_component h c = (c', h1)"
      by (simp add: deepcopy_component_def c'_def h1_def)
    obtain rs m1 h2 where rec: "copy_refs refs ((c, c') # memo) h1 = (rs, m1, h2)"
      by (cases "copy_refs refs ((c, c') # memo) h1") auto
    have res: "refs' = (k, c') # rs" "h' = h2"
      using Cons.prems(1) None dc rec by (simp_all add: r)
    have n1: "n0 \<le> next_addr h1" using Cons.prems(2) by (simp add: h1_def c'_def)
    have cc: "c \<noteq> c'" using cn Cons.prems(2) by (simp add: c'_def)
    have memo1: "\<forall>(a, a')\<in>set ((c, c') # memo).
        a < n0 \<and> n0 \<le> a' \<and> a' < next_addr h1 \<and> components h1 a' = components h1 a"
      using Cons.prems(2,3) cn cc by (auto simp: h1_def c'_def)
    have ih: "next_addr h1 \<le> next_addr h2 \<and> strategies h2 = strategies h1 \<and>
         (\<forall>c<next_addr h1. components h2 c = components h1 c) \<and>
         map fst rs = map fst refs \<and>
         (\<forall>(k, c')\<in>set rs. n0 \<le> c' \<and> c' < next_addr h2) \<and>
         map (\<lambda>(k, c). (k, components h2 c)) rs = map (\<lambda>(k, c). (k, components h1 c)) refs"
      using Cons.IH [OF rec n1 memo1 rn] .
    have old: "\<forall>a<next_addr h. components h1 a = components h a"
      by (simp add: h1_def c'_def)
    have same: "map (\<lambda>(k, c). (k, components h1 c)) refs = map (\<lambda>(k, c). (k, components h c)) refs"
      using rn Cons.prems(2) old by (auto simp: h1_def c'_def)
    have new: "components h2 c' = components h c"
      using ih by (simp add: h1_def c'_def)
    have a1: "next_addr h \<le> next_addr h2" using ih by (simp add: h1_def c'_def)
    have a2: "strategies h2 = strategies h" using ih by (simp add: h1_def)
    have a3: "\<forall>a<next_addr h. components h2 a = components h a"
      using ih old by (simp add: h1_def c'_def)
    have a5: "n0 \<le> c' \<and> c' < next_addr h2" using ih Cons.prems(2) by (simp add: h1_def c'_def)
    show ?thesis using ih a1 a2 a3 a5 new same by (simp add: res r)
  qed
qed

lemma deepcopy_strategy_props:
  assumes "deepcopy_strategy h a = (a', h')" and "allocated h a"
  shows "next_addr h \<le> a' \<and> a' < next_addr h' \<and>
         (\<forall>b. b \<noteq> a' \<longrightarrow> strategies h' b = strategies h b) \<and>
         (\<forall>c<next_addr h. components h' c = components h c) \<and>
         list_all (\<lambda>(k, c). next_addr h \<le> c \<and> c < next_addr h') (strategies h' a') \<and>
         strategy_view h' a' = strategy_view h a"
proof -
  obtain rs m1 h1 where rec: "copy_refs (strategies h a) [] h = (rs, m1, h1)"
    by (cases "copy_refs (strategies h a) [] h") auto
  have a': "a' = next_addr h1"
    and h': "h' = h1\<lparr>strategies := (strategies h1)(next_addr h1 := rs), next_addr := Suc (next_addr h1)\<rparr>"
    using assms(1) rec by (auto simp: deepcopy_strategy_def)
  have refs: "\<forall>(k, c)\<in>set (strategies h a). c < next_addr h"
    using assms(2) by (auto simp: allocated_def list_all_iff)
  have inv: "next_addr h \<le> next_addr h1 \<and> strategies h1 = strategies h \<and>
         (\<forall>c<next_addr h. components h1 c = components h c) \<and>
         map fst rs = map fst (strategies h a) \<and>
         (\<forall>(k, c')\<in>set rs. next_addr h \<le> c' \<and> c' < next_addr h1) \<and>
         map (\<lambda>(k, c). (k, components h1 c)) rs = map (\<lambda>(k, c). (k, components h c)) (strategies h a)"
    using copy_refs_inv [OF rec, of "next_addr h"] refs by simp
  have v: "strategy_view h' a' = strategy_view h a"
    using inv by (simp add: strategy_view_def a' h')
  have l: "list_all (\<lambda>(k, c). next_addr h \<le> c \<and> c < next_addr h') (strategies h' a')"
    using inv by (auto simp: a' h' list_all_iff)
  show ?thesis using inv v l by (auto simp: a' h')
qed

lemma map_of_dict_set: "map_of (dict_set d k v) k = Some v"
  by (induction d) auto

lemma add_gate_members_props:
  "add_gate_members key_of h ms g p = (None, h') \<Longrightarrow> g < next_addr h \<Longrightarrow>
   distinct (map snd ms) \<Longrightarrow>
   \<exists>cs. length cs = length ms \<and> distinct cs \<and>
        (\<forall>c\<in>set cs. next_addr h \<le> c \<and> c < next_addr h' \<and> components h' c = components h g) \<and>
        (\<forall>c<next_addr h. components h' c = components h c) \<and>
        next_addr h \<le> next_addr h' \<and>
        map (strategies h') (map snd ms) =
          map2 (\<lambda>b c. strategies h b @ [(key_of (components h g) p, c)]) (map snd ms) cs \<and>
        (\<forall>b. b \<notin> snd ` set ms \<longrightarrow> strategies h' b = strategies h b)"
proof (induction ms arbitrary: h)
  case Nil
  then show ?case by simp
next
  case (Cons m ms)
  obtain sid a where m: "m = (sid, a)" by (cases m)
  define c where "c = next_addr h"
  define h1 where "h1 = h\<lparr>components := (components h)(c := components h g), next_addr := Suc c\<rparr>"
  define k where "k = key_of (components h g) p"
  have dc: "deepcopy_component h g = (c, h1)"
    by (simp add: deepcopy_component_def c_def h1_def)
  have gc: "g \<noteq> c" using Cons.prems(2) by (simp add: c_def)
  have k1: "key_of (components h1 c) p = k" by (simp add: h1_def k_def)
  from Cons.prems(1) obtain h2 where
    ag: "strategy_add_gate key_of h1 a c p = Inr h2" and
    rec: "add_gate_members key_of h2 ms g p = (None, h')"
    by (auto simp: m dc split: sum.splits)
  have fresh: "k \<notin> set (dict_keys (strategies h1 a))"
    and h2: "h2 = set_registry h1 a (strategies h1 a @ [(k, c)])"
    using ag k1 by (auto simp: strategy_add_gate_def Let_def dict_set_new split: if_splits)
  have n2: "next_addr h2 = Suc c" by (simp add: h2 set_registry_def h1_def)
  have c2: "components h2 = (components h)(c := components h g)"
    by (simp add: h2 set_registry_def h1_def)
  have s2: "strategies h2 = (strategies h)(a := strategies h a @ [(k, c)])"
    by (simp add: h2 set_registry_def h1_def)
  have g2: "g < next_addr h2" using Cons.prems(2) by (simp add: n2 c_def)
  have d: "distinct (map snd ms)" and ams: "a \<notin> snd ` set ms"
    using Cons.prems(3) by (auto simp: m)
  have cg2: "components h2 g = components h g" using gc by (simp add: c2)
  obtain cs where
    l: "length cs = length ms" and dcs: "distinct cs" and
    f: "\<forall>x\<in>set cs. next_addr h2 \<le> x \<and> x < next_addr h' \<and> components h' x = components h2 g" and
    o: "\<forall>x<next_addr h2. components h' x = components h2 x" and
    n: "next_addr h2 \<le> next_addr h'" and
    st: "map (strategies h') (map snd ms) =
          map2 (\<lambda>b x. strategies h2 b @ [(key_of (components h2 g) p, x)]) (map snd ms) cs" and
    ot: "\<forall>b. b \<notin> snd ` set ms \<longrightarrow> strategies h' b = strategies h2 b"
    using Cons.IH [OF rec g2 d] by blast
  have cnot: "c \<notin> set cs" using f by (auto simp: n2)
  have p1: "length (c # cs) = length (m # ms)" using l by simp
  have p2: "distinct (c # cs)" using dcs cnot by simp
  have cc: "components h' c = components h g"
    using o by (simp add: n2 c2)
  have p3: "\<forall>x\<in>set (c # cs). next_addr h \<le> x \<and> x < next_addr h' \<and> components h' x = components h g"
    using f n cc cg2 by (auto simp: n2 c_def)
  have p4: "\<forall>x<next_addr h. components h' x = components h x"
    using o by (simp add: n2 c2 c_def)
  have p5: "next_addr h \<le> next_addr h'" using n by (simp add: n2 c_def)
  have sa: "strategies h' a = strategies h a @ [(k, c)]"
    using ot ams by (simp add: s2)
  have same: "\<forall>b\<in>set (map snd ms). strategies h2 b = strategies h b"
    using ams by (auto simp: s2)
  have m2: "map2 (\<lambda>b x. strategies h2 b @ [(key_of (components h2 g) p, x)]) (map snd ms) cs =
      map2 (\<lambda>b x. strategies h b @ [(k, x)]) (map snd ms) cs"
  proof (rule map_cong [OF refl])
    fix bx assume bx: "bx \<in> set (zip (map snd ms) cs)"
    obtain b x where e: "bx = (b, x)" by (cases bx)
    have "b \<in> set (map snd ms)" using bx unfolding e by (rule set_zip_leftD)
    then have "strategies h2 b = strategies h b" using same by blast
    then show "(case bx of (b, x) \<Rightarrow> strategies h2 b @ [(key_of (components h2 g) p, x)]) =
        (case bx of (b, x) \<Rightarrow> strategies h b @ [(k, x)])"
      using cg2 by (simp add: e k_def)
  qed
  have p6: "map (strategies h') (map snd (m # ms)) =
          map2 (\<lambda>b x. strategies h b @ [(k, x)]) (map snd (m # ms)) (c # cs)"
    using st m2 sa by (simp add: m)
  have p7: "\<forall>b. b \<notin> snd ` set (m # ms) \<longrightarrow> strategies h' b = strategies h b"
    using ot by (auto simp: m s2)
  show ?case using p1 p2 p3 p4 p5 p6 p7 unfolding k_def by blast
qed

lemma dict_set_subset: "set (dict_set d k v) \<subseteq> insert (k, v) (set d)"
  by (induction d) (auto split: if_splits)

lemma session_strategies_mem:
  "b \<in> set (session_strategies s) =
   (\<exists>g grp. (g, grp) \<in> set (sample_group_lut s) \<and> (b = template grp \<or> b \<in> snd ` set (members grp)))"
  by (auto simp: session_strategies_def)

lemma allocated_frame:
  assumes "allocated h b" and "next_addr h \<le> next_addr h'" and "strategies h' b = strategies h b"
    and "\<forall>c<next_addr h. components h' c = components h c"
  shows "allocated h' b \<and> strategy_view h' b = strategy_view h b"
proof -
  have r: "\<forall>(k, c)\<in>set (strategies h b). c < next_addr h"
    using assms(1) by (auto simp: allocated_def list_all_iff)
  have "map (\<lambda>(k, c). (k, components h' c)) (strategies h b) =
      map (\<lambda>(k, c). (k, components h c)) (strategies h b)"
    using r assms(4) by auto
  then have v: "strategy_view h' b = strategy_view h b"
    using assms(3) by (simp add: strategy_view_def)
  have "allocated h' b"
    using assms(1,2,3) by (auto simp: allocated_def list_all_iff)
  then show ?thesis using v by simp
qed

lemma assign_sample_copy:
  assumes wf: "session_wf s"
    and grp: "map_of (sample_group_lut s) group_name = Some grp"
    and new: "s_id \<notin> set (dict_keys (members grp))"
  shows "\<exists>s' grp' a'.
      assign_sample s s_id group_name = Inr s' \<and> session_wf s' \<and>
      map_of (sample_group_lut s') group_name = Some grp' \<and>
      template grp' = template grp \<and> map_of (members grp') s_id = Some a' \<and>
      a' \<notin> set (session_strategies s) \<and>
      strategy_view (store s') a' = strategy_view (store s) (template grp) \<and>
      (\<forall>b\<in>set (session_strategies s).
         strategy_view (store s') b = strategy_view (store s) b \<and>
         (\<forall>refs. strategy_view (set_registry (store s') a' refs) b = strategy_view (store s) b) \<and>
         (\<forall>c\<in>snd ` set (strategies (store s') a'). \<forall>v.
            strategy_view (set_component (store s') c v) b = strategy_view (store s) b))"
proof -
  obtain a' h' where dc: "deepcopy_strategy (store s) (template grp) = (a', h')"
    by (cases "deepcopy_strategy (store s) (template grp)") auto
  define grp' where "grp' = grp\<lparr>members := dict_set (members grp) s_id a'\<rparr>"
  define s' where "s' = s\<lparr>sample_group_lut := dict_set (sample_group_lut s) group_name grp',
      store := h'\<rparr>"
  have res: "assign_sample s s_id group_name = Inr s'"
    using grp new dc by (simp add: assign_sample_def s'_def grp'_def)
  have gin: "(group_name, grp) \<in> set (sample_group_lut s)" using grp by (rule map_of_SomeD)
  have alloc: "\<forall>b\<in>set (session_strategies s). allocated (store s) b"
    using wf by (simp add: session_wf_def list_all_iff)
  have "template grp \<in> set (session_strategies s)"
    unfolding session_strategies_mem using gin by blast
  then have talloc: "allocated (store s) (template grp)" using alloc by blast
  have p: "next_addr (store s) \<le> a' \<and> a' < next_addr h' \<and>
         (\<forall>b. b \<noteq> a' \<longrightarrow> strategies h' b = strategies (store s) b) \<and>
         (\<forall>c<next_addr (store s). components h' c = components (store s) c) \<and>
         list_all (\<lambda>(k, c). next_addr (store s) \<le> c \<and> c < next_addr h') (strategies h' a') \<and>
         strategy_view h' a' = strategy_view (store s) (template grp)"
    using deepcopy_strategy_props [OF dc talloc] .
  have st: "store s' = h'" by (simp add: s'_def)
  have lut: "sample_group_lut s' = dict_set (sample_group_lut s) group_name grp'"
    by (simp add: s'_def)
  have fresh: "a' \<notin> set (session_strategies s)"
    using alloc p by (auto simp: allocated_def)
  have nle: "next_addr (store s) \<le> next_addr h'" using p by simp
  have old: "allocated h' b \<and> strategy_view h' b = strategy_view (store s) b"
    if "b \<in> set (session_strategies s)" for b
  proof -
    have "b \<noteq> a'" using that fresh by auto
    then have "strategies h' b = strategies (store s) b" using p by simp
    then show ?thesis using allocated_frame [of "store s" b h'] alloc that nle p by simp
  qed
  have anew: "allocated h' a'"
    using p by (auto simp: allocated_def list_all_iff)
  have sub: "set (session_strategies s') \<subseteq> insert a' (set (session_strategies s))"
  proof
    fix b assume "b \<in> set (session_strategies s')"
    then obtain g gr where gg: "(g, gr) \<in> set (dict_set (sample_group_lut s) group_name grp')"
      and b: "b = template gr \<or> b \<in> snd ` set (members gr)"
      unfolding session_strategies_mem lut by blast
    have "(g, gr) = (group_name, grp') \<or> (g, gr) \<in> set (sample_group_lut s)"
      using gg dict_set_subset [of "sample_group_lut s" group_name grp'] by auto
    then show "b \<in> insert a' (set (session_strategies s))"
    proof
      assume "(g, gr) = (group_name, grp')"
      then have gr: "gr = grp'" by simp
      have ms: "set (members grp') \<subseteq> insert (s_id, a') (set (members grp))"
        using dict_set_subset [of "members grp" s_id a'] by (simp add: grp'_def)
      have t: "template grp' = template grp" by (simp add: grp'_def)
      show ?thesis
      proof (cases "b = a'")
        case True
        then show ?thesis by simp
      next
        case False
        then have "b = template grp \<or> b \<in> snd ` set (members grp)"
          using b ms unfolding gr t by auto
        then have "b \<in> set (session_strategies s)"
          unfolding session_strategies_mem using gin by blast
        then show ?thesis by simp
      qed
    next
      assume "(g, gr) \<in> set (sample_group_lut s)"
      then have "b \<in> set (session_strategies s)"
        unfolding session_strategies_mem using b by blast
      then show ?thesis by simp
    qed
  qed
  have wf': "session_wf s'"
    unfolding session_wf_def list_all_iff st using sub old anew by blast
  have g': "map_of (sample_group_lut s') group_name = Some grp'"
    by (simp add: lut map_of_dict_set)
  have t': "template grp' = template grp" by (simp add: grp'_def)
  have m': "map_of (members grp') s_id = Some a'" by (simp add: grp'_def map_of_dict_set)
  have v': "strategy_view (store s') a' = strategy_view (store s) (template grp)"
    using p by (simp add: st)
  have frame: "strategy_view (store s') b = strategy_view (store s) b \<and>
         (\<forall>refs. strategy_view (set_registry (store s') a' refs) b = strategy_view (store s) b) \<and>
         (\<forall>c\<in>snd ` set (strategies (store s') a'). \<forall>v.
            strategy_view (set_component (store s') c v) b = strategy_view (store s) b)"
    if bs: "b \<in> set (session_strategies s)" for b
  proof -
    have ba: "b \<noteq> a'" using bs fresh by auto
    have v: "strategy_view h' b = strategy_view (store s) b" using old [OF bs] by simp
    have sb: "strategies h' b = strategies (store s) b" using ba p by simp
    have rb: "\<forall>(k, c)\<in>set (strategies h' b). c < next_addr (store s)"
      using alloc bs by (auto simp: sb allocated_def list_all_iff)
    have r1: "strategy_view (set_registry h' a' refs) b = strategy_view h' b" for refs
      using ba by (simp add: strategy_view_def set_registry_def)
    have r2: "strategy_view (set_component h' c v) b = strategy_view h' b"
      if "c \<in> snd ` set (strategies h' a')" for c v
    proof -
      have "next_addr (store s) \<le> c" using that p by (auto simp: list_all_iff)
      then have "\<forall>(k, x)\<in>set (strategies h' b). x \<noteq> c" using rb by auto
      then have "map (\<lambda>(k, x). (k, ((components h')(c := v)) x)) (strategies h' b) =
          map (\<lambda>(k, x). (k, components h' x)) (strategies h' b)"
        by auto
      then show ?thesis by (simp add: strategy_view_def set_component_def)
    qed
    show ?thesis using v r1 r2 by (simp add: st)
  qed
  show ?thesis using res wf' g' t' m' fresh v' frame by blast
qed

lemma add_gate_copies:
  assumes grp: "map_of (sample_group_lut s) group_name = Some grp"
    and g: "gate < next_addr (store s)"
    and d: "distinct (template grp # map snd (members grp))"
    and ok: "add_gate key_of s gate gate_path group_name = (None, s')"
  shows "\<exists>cs. length cs = Suc (length (members grp)) \<and> distinct cs \<and> gate \<notin> set cs \<and>
      (\<forall>c\<in>set cs. next_addr (store s) \<le> c \<and> components (store s') c = components (store s) gate) \<and>
      components (store s') gate = components (store s) gate \<and>
      map (strategies (store s')) (template grp # map snd (members grp)) =
        map2 (\<lambda>b c. strategies (store s) b @ [(key_of (components (store s) gate) gate_path, c)])
          (template grp # map snd (members grp)) cs \<and>
      (\<forall>c\<in>set cs. \<forall>v. components (set_component (store s') c v) gate = components (store s) gate \<and>
         (\<forall>c2\<in>set cs. c2 \<noteq> c \<longrightarrow>
            components (set_component (store s') c v) c2 = components (store s) gate)) \<and>
      sample_group_lut s' = sample_group_lut s"
proof -
  define ms where "ms = (group_name, template grp) # members grp"
  obtain r h' where m: "add_gate_members key_of (store s) ms gate gate_path = (r, h')"
    by (cases "add_gate_members key_of (store s) ms gate gate_path") auto
  have r: "r = None" and s': "s' = s\<lparr>store := h'\<rparr>"
    using ok grp m by (simp_all add: add_gate_def ms_def)
  have dm: "distinct (map snd ms)" using d by (simp add: ms_def)
  have sm: "map snd ms = template grp # map snd (members grp)" by (simp add: ms_def)
  obtain cs where
    l: "length cs = length ms" and dcs: "distinct cs" and
    f: "\<forall>c\<in>set cs. next_addr (store s) \<le> c \<and> c < next_addr h' \<and>
          components h' c = components (store s) gate" and
    o: "\<forall>c<next_addr (store s). components h' c = components (store s) c" and
    st: "map (strategies h') (map snd ms) =
          map2 (\<lambda>b c. strategies (store s) b @ [(key_of (components (store s) gate) gate_path, c)])
            (map snd ms) cs"
    using add_gate_members_props [OF m [unfolded r] g dm] by blast
  have h: "store s' = h'" and lut: "sample_group_lut s' = sample_group_lut s"
    by (simp_all add: s')
  have p1: "length cs = Suc (length (members grp))" using l by (simp add: ms_def)
  have p2: "gate \<notin> set cs" using f g by auto
  have p3: "components h' gate = components (store s) gate" using o g by simp
  have p4: "\<forall>c\<in>set cs. \<forall>v. components (set_component h' c v) gate = components (store s) gate \<and>
         (\<forall>c2\<in>set cs. c2 \<noteq> c \<longrightarrow>
            components (set_component h' c v) c2 = components (store s) gate)"
    using p2 p3 f by (auto simp: set_component_def)
  show ?thesis
    unfolding h lut using p1 dcs p2 f p3 st [unfolded sm] p4 by blast
qed

text \<open>
  C7. In a well-formed session, assigning a sample that is not yet in the group gives it a
  strategy at a new address that holds what the template holds; the session stays well
  formed; and neither the assignment nor a mutation through the sample's strategy (of its
  registry, or of a component it refers to) changes what the template or the strategy of
  any sample of any group holds. When \<open>Session.add_gate\<close> succeeds on a group whose
  strategies are distinct objects, the template and each member strategy have got, under
  the gate's key, a reference to a new component of their own that holds the value of the
  given gate: the copies are pairwise distinct and distinct from the given gate, and
  assigning to one changes neither the others nor the given gate.
\<close>

theorem sample_strategy_is_independent_copy:
  assumes "session_wf s" and "map_of (sample_group_lut s) group_name = Some grp"
  shows "(s_id \<notin> set (dict_keys (members grp)) \<longrightarrow>
     (\<exists>s' grp' a'.
        assign_sample s s_id group_name = Inr s' \<and> session_wf s' \<and>
        map_of (sample_group_lut s') group_name = Some grp' \<and>
        template grp' = template grp \<and> map_of (members grp') s_id = Some a' \<and>
        a' \<notin> set (session_strategies s) \<and>
        strategy_view (store s') a' = strategy_view (store s) (template grp) \<and>
        (\<forall>b\<in>set (session_strategies s).
           strategy_view (store s') b = strategy_view (store s) b \<and>
           (\<forall>refs. strategy_view (set_registry (store s') a' refs) b = strategy_view (store s) b) \<and>
           (\<forall>c\<in>snd ` set (strategies (store s') a'). \<forall>v.
              strategy_view (set_component (store s') c v) b = strategy_view (store s) b)))) \<and>
   (gate < next_addr (store s) \<and> distinct (template grp # map snd (members grp)) \<and>
    add_gate key_of s gate gate_path group_name = (None, s2) \<longrightarrow>
     (\<exists>cs. length cs = Suc (length (members grp)) \<and> distinct cs \<and> gate \<notin> set cs \<and>
        (\<forall>c\<in>set cs. next_addr (store s) \<le> c \<and>
           components (store s2) c = components (store s) gate) \<and>
        components (store s2) gate = components (store s) gate \<and>
        map (strategies (store s2)) (template grp # map snd (members grp)) =
          map2 (\<lambda>b c. strategies (store s) b @ [(key_of (components (store s) gate) gate_path, c)])
            (template grp # map snd (members grp)) cs \<and>
        (\<forall>c\<in>set cs. \<forall>v.
           components (set_component (store s2) c v) gate = components (store s) gate \<and>
           (\<forall>c2\<in>set cs. c2 \<noteq> c \<longrightarrow>
              components (set_component (store s2) c v) c2 = components (store s) gate)) \<and>
        sample_group_lut s2 = sample_group_lut s))"
proof (rule conjI; rule impI)
  assume n: "s_id \<notin> set (dict_keys (members grp))"
  show "\<exists>s' grp' a'.
        assign_sample s s_id group_name = Inr s' \<and> session_wf s' \<and>
        map_of (sample_group_lut s') group_name = Some grp' \<and>
        template grp' = template grp \<and> map_of (members grp') s_id = Some a' \<and>
        a' \<notin> set (session_strategies s) \<and>
        strategy_view (store s') a' = strategy_view (store s) (template grp) \<and>
        (\<forall>b\<in>set (session_strategies s).
           strategy_view (store s') b = strategy_view (store s) b \<and>
           (\<forall>refs. strategy_view (set_registry (store s') a' refs) b = strategy_view (store s) b) \<and>
           (\<forall>c\<in>snd ` set (strategies (store s') a'). \<forall>v.
              strategy_view (set_component (store s') c v) b = strategy_view (store s) b))"
    using assign_sample_copy [OF assms n] .
next
  assume h: "gate < next_addr (store s) \<and> distinct (template grp # map snd (members grp)) \<and>
    add_gate key_of s gate gate_path group_name = (None, s2)"
  have h1: "gate < next_addr (store s)" using h by (rule conjunct1)
  have h2: "distinct (template grp # map snd (members grp))"
    using h by (rule conjunct1 [OF conjunct2])
  have h3: "add_gate key_of s gate gate_path group_name = (None, s2)"
    using h by (rule conjunct2 [OF conjunct2])
  show "\<exists>cs. length cs = Suc (length (members grp)) \<and> distinct cs \<and> gate \<notin> set cs \<and>
        (\<forall>c\<in>set cs. next_addr (store s) \<le> c \<and>
           components (store s2) c = components (store s) gate) \<and>
        components (store s2) gate = components (store s) gate \<and>
        map (strategies (store s2)) (template grp # map snd (members grp)) =
          map2 (\<lambda>b c. strategies (store s) b @ [(key_of (components (store s) gate) gate_path, c)])
            (template grp # map snd (members grp)) cs \<and>
        (\<forall>c\<in>set cs. \<forall>v.
           components (set_component (store s2) c v) gate = components (store s) gate \<and>
           (\<forall>c2\<in>set cs. c2 \<noteq> c \<longrightarrow>
              components (set_component (store s2) c v) c2 = components (store s) gate)) \<and>
        sample_group_lut s2 = sample_group_lut s"
    using add_gate_copies [OF assms(2) h1 h2 h3] .
qed

theorem sample_strategy_is_independent_copy_witness:
  "session_wf ex_session \<and>
   map_of (sample_group_lut ex_session) ''default'' = Some ex_group \<and>
   ''b.fcs'' \<notin> set (dict_keys (members ex_group)) \<and>
   (\<exists>s' a'. assign_sample ex_session ''b.fcs'' ''default'' = Inr s' \<and> session_wf s' \<and>
      a' \<notin> set (session_strategies ex_session) \<and>
      strategy_view (store s') a' = strategy_view (store ex_session) (template ex_group)) \<and>
   4 < next_addr (store ex_session) \<and>
   distinct (template ex_group # map snd (members ex_group)) \<and>
   fst (add_gate ex_key_of ex_session 4 ''G2'' ''default'') = None \<and>
   (\<exists>cs. length cs = Suc (length (members ex_group)) \<and> distinct cs \<and> (4::nat) \<notin> set cs \<and>
      sample_group_lut (snd (add_gate ex_key_of ex_session 4 ''G2'' ''default'')) =
        sample_group_lut ex_session)"
proof -
  have wf: "session_wf ex_session"
    by (simp add: session_wf_def session_strategies_def ex_session_def ex_group_def ex_heap_def
        allocated_def)
  have g: "map_of (sample_group_lut ex_session) ''default'' = Some ex_group"
    by (simp add: ex_session_def)
  have n: "''b.fcs'' \<notin> set (dict_keys (members ex_group))"
    by (simp add: ex_group_def dict_keys_def)
  have a: "4 < next_addr (store ex_session)" by (simp add: ex_session_def ex_heap_def)
  have d: "distinct (template ex_group # map snd (members ex_group))"
    by (simp add: ex_group_def)
  have f: "fst (add_gate ex_key_of ex_session 4 ''G2'' ''default'') = None"
    by (simp add: add_gate_def ex_session_def ex_group_def ex_heap_def deepcopy_component_def
        strategy_add_gate_def ex_key_of_def dict_keys_def set_registry_def Let_def)
  have r: "add_gate ex_key_of ex_session 4 ''G2'' ''default'' =
      (None, snd (add_gate ex_key_of ex_session 4 ''G2'' ''default''))"
    using f by (metis prod.collapse)
  note th = sample_strategy_is_independent_copy [OF wf g, of "''b.fcs''" 4 ex_key_of "''G2''"
      "snd (add_gate ex_key_of ex_session 4 ''G2'' ''default'')"]
  have adr: "4 < next_addr (store ex_session) \<and>
      distinct (template ex_group # map snd (members ex_group)) \<and>
      add_gate ex_key_of ex_session 4 ''G2'' ''default'' =
        (None, snd (add_gate ex_key_of ex_session 4 ''G2'' ''default''))"
    using a d r by (intro conjI)
  from th [THEN conjunct1, THEN mp, OF n] obtain s' a' where
    t1: "assign_sample ex_session ''b.fcs'' ''default'' = Inr s'" "session_wf s'"
      "a' \<notin> set (session_strategies ex_session)"
      "strategy_view (store s') a' = strategy_view (store ex_session) (template ex_group)"
    by (elim exE conjE)
  from th [THEN conjunct2, THEN mp, OF adr] obtain cs where
    t2: "length cs = Suc (length (members ex_group))" "distinct cs" "(4::nat) \<notin> set cs"
      "sample_group_lut (snd (add_gate ex_key_of ex_session 4 ''G2'' ''default'')) =
        sample_group_lut ex_session"
    by (elim exE conjE)
  have t: "(\<exists>s' a'. assign_sample ex_session ''b.fcs'' ''default'' = Inr s' \<and> session_wf s' \<and>
      a' \<notin> set (session_strategies ex_session) \<and>
      strategy_view (store s') a' = strategy_view (store ex_session) (template ex_group)) \<and>
    (\<exists>cs. length cs = Suc (length (members ex_group)) \<and> distinct cs \<and> (4::nat) \<notin> set cs \<and>
      sample_group_lut (snd (add_gate ex_key_of ex_session 4 ''G2'' ''default'')) =
        sample_group_lut ex_session)"
    using t1 t2 by blast
  show ?thesis using wf g n a d f t by blast
qed

text \<open>
  The example session, run: the copy made for \<open>b.fcs\<close> is the strategy at address 6 with
  its gate at address 5; assigning 99 to that gate shows in the copy and neither in the
  template (address 0) nor in the strategy of \<open>a.fcs\<close> (address 3).
\<close>

lemma assign_sample_example:
  "(case assign_sample ex_session ''b.fcs'' ''default'' of
      Inl e \<Rightarrow> False
    | Inr s' \<Rightarrow>
        map_of (sample_group_lut s') ''default'' =
          Some \<lparr>template = 0, members = [(''a.fcs'', 3), (''b.fcs'', 6)]\<rparr> \<and>
        strategy_view (store s') 6 = [(''G1'', 10)] \<and>
        strategy_view (set_component (store s') 5 99) 6 = [(''G1'', 99)] \<and>
        strategy_view (set_component (store s') 5 99) 0 = [(''G1'', 10)] \<and>
        strategy_view (set_component (store s') 5 99) 3 = [(''G1'', 10)])"
  by (simp add: assign_sample_def ex_session_def ex_group_def ex_heap_def deepcopy_strategy_def
      deepcopy_component_def dict_keys_def strategy_view_def set_component_def)

subsection \<open>The pool branch and the sequential branch\<close>

text \<open>
  With a pool that maps in order and raises the first error, the pool branch, once the
  pool exists, computes what the sequential loop computes.
\<close>

lemma build_data_total:
  "i + length xs \<le> length sts \<Longrightarrow> \<exists>data. build_data sts xs verbose i = Inr data"
proof (induction xs arbitrary: i)
  case Nil
  then show ?case by simp
next
  case (Cons x xs)
  have "\<exists>data. build_data sts xs verbose (Suc i) = Inr data"
    using Cons.IH [of "Suc i"] Cons.prems by simp
  then show ?case using Cons.prems by auto
qed

lemma pool_in_order_agrees:
  "i + length xs \<le> length sts \<Longrightarrow>
   (case build_data sts xs verbose i of
      Inl e \<Rightarrow> Inl e
    | Inr data \<Rightarrow>
        (case ex_pool_map n (mp_gate_sample gs) data of
           Inl e \<Rightarrow> Inl e
         | Inr rs \<Rightarrow> Inr (acc @ rs))) =
   gate_samples_seq gs sts xs verbose i acc"
proof (induction xs arbitrary: i acc)
  case Nil
  then show ?case by simp
next
  case (Cons x xs)
  have i: "i < length sts" and r: "Suc i + length xs \<le> length sts"
    using Cons.prems by simp_all
  obtain data where d: "build_data sts xs verbose (Suc i) = Inr data"
    using build_data_total [OF r] by blast
  show ?case
  proof (cases "gs (sts ! i) x verbose")
    case (Inl e)
    then show ?thesis using i d
      by (auto simp: mp_gate_sample_def split: sum.splits)
  next
    case (Inr res)
    have "gate_samples_seq gs sts xs verbose (Suc i) (acc @ [res]) =
        (case build_data sts xs verbose (Suc i) of
           Inl e \<Rightarrow> Inl e
         | Inr data \<Rightarrow>
            (case ex_pool_map n (mp_gate_sample gs) data of
               Inl e \<Rightarrow> Inl e
             | Inr rs \<Rightarrow> Inr ((acc @ [res]) @ rs)))"
      using Cons.IH [OF r, of "acc @ [res]"] by simp
    then show ?thesis using i Inr d
      by (auto simp: mp_gate_sample_def split: sum.splits)
  qed
qed

text \<open>
  C4. On a machine with one CPU \<open>proc_count\<close> is \<open>cpu_count - 1 = 0\<close>: with the
  multiprocessing branch enabled and two samples, \<open>_gate_samples\<close> asks for a pool of no
  process, which \<open>multiprocessing\<close> refuses with ValueError, where the sequential branch
  returns the two results. With four CPUs the same call returns them through the pool.
\<close>

theorem single_cpu_pool_fails:
  "mp_gate_samples ex_env_single ex_gs [''sa'', ''sb''] [''a.fcs'', ''b.fcs''] False True =
     Inl PoolError \<and>
   mp_gate_samples ex_env_single ex_gs [''sa'', ''sb''] [''a.fcs'', ''b.fcs''] False False =
     Inr [\<lparr>sample_id = ''a.fcs'', report = [2]\<rparr>, \<lparr>sample_id = ''b.fcs'', report = [2]\<rparr>] \<and>
   mp_gate_samples ex_env ex_gs [''sa'', ''sb''] [''a.fcs'', ''b.fcs''] False True =
     Inr [\<lparr>sample_id = ''a.fcs'', report = [2]\<rparr>, \<lparr>sample_id = ''b.fcs'', report = [2]\<rparr>]"
  by code_simp

end
